theory Spec2Isabelle
  imports Main "HOL-Library.Sublist"
begin

section \<open>Strings\<close>

text \<open>
  A Go string is a sequence of bytes; it is modelled as a \<^typ>\<open>string\<close>. The two functions
  of Go's \<open>strings\<close> package that the manifest code calls are written out here.
  \<open>strings.ToLower\<close> is modelled on ASCII: the bytes \<open>A\<close> to \<open>Z\<close> are mapped to \<open>a\<close> to
  \<open>z\<close> and every other byte is left as it is (kinds are ASCII identifiers; Go would
  also lower-case the upper-case letters beyond ASCII). \<open>strings.HasSuffix s suffix\<close> is
  \<open>len(s) >= len(suffix) && s[len(s)-len(suffix):] == suffix\<close>.
\<close>

definition toLower_byte :: "char \<Rightarrow> char" where
  "toLower_byte c =
     (let n = (of_char c :: nat) in if 65 \<le> n \<and> n \<le> 90 then char_of (n + 32) else c)"

definition ToLower :: "string \<Rightarrow> string" where
  "ToLower s = map toLower_byte s"

definition HasSuffix :: "string \<Rightarrow> string \<Rightarrow> bool" where
  "HasSuffix s sfx = (length sfx \<le> length s \<and> drop (length s - length sfx) s = sfx)"

section \<open>Kinds: pluralization and cluster scope\<close>

text \<open>
  \<open>pluralize\<close> follows the source: \<open>ret[:len(ret)-1]\<close> is \<open>take (length ret - 1) ret\<close>,
  and each \<open>fmt.Sprintf\<close> is a concatenation.
\<close>

definition pluralize :: "string \<Rightarrow> string" where
  "pluralize kind =
     (let ret = ToLower kind in
      if HasSuffix ret ''s'' then ret @ ''es''
      else if HasSuffix ret ''policy'' then take (length ret - 1) ret @ ''ies''
      else ret @ ''s'')"

text \<open>
  The pluralization rule in the words of the specification: lower-case the kind; if it
  ends in "s", append "es"; else if it ends in "policy", strip the trailing "y" and append
  "ies"; else append "s". "Ends in" is \<^const>\<open>suffix\<close>, and stripping the last character
  is \<^const>\<open>butlast\<close>.
\<close>

definition pluralize_spec :: "string \<Rightarrow> string" where
  "pluralize_spec kind =
     (let k = ToLower kind in
      if suffix ''s'' k then k @ ''es''
      else if suffix ''policy'' k then butlast k @ ''ies''
      else k @ ''s'')"

definition isClusterScoped :: "string \<Rightarrow> bool" where
  "isClusterScoped kind =
     (let k = ToLower kind in
      if k = ''namespace'' \<or> k = ''clusterrole'' \<or> k = ''clusterrolebinding''
         \<or> k = ''customresourcedefinition''
      then True else False)"

section \<open>Resources and endpoints\<close>

text \<open>
  An \<open>unstructured.Unstructured\<close> is a struct with one field, \<open>Object\<close>, a Go map, which is
  a reference: copying the struct (as \<open>for _, spec := range f.resources\<close> and
  \<open>copy(a, f.resources)\<close> do) copies the reference, and the copy shares the map with the
  original. The record below is the contents of one such map: the fields the engine reads
  through the getters, named after them, the owner references that
  \<open>SetOwnerReferences\<close> writes, and the rest of the document. The map of a decoded
  document is never nil.
\<close>

datatype OwnerReference = OwnerReference string string string string

record unstructured =
  GetAPIVersion :: string
  GetKind :: string
  GetNamespace :: string
  GetName :: string
  GetOwnerReferences :: "OwnerReference list"
  payload :: string

datatype error =
    GroupVersionError string
  | NotFound string
  | AlreadyExists string
  | OtherError string

fun IsNotFound :: "error \<Rightarrow> bool" where
  "IsNotFound (NotFound _) = True"
| "IsNotFound _ = False"

fun IsAlreadyExists :: "error \<Rightarrow> bool" where
  "IsAlreadyExists (AlreadyExists _) = True"
| "IsAlreadyExists _ = False"

datatype GroupVersion = GV string string

datatype GroupVersionResource = GVR string string string

datatype GroupVersionKind = GVK string string string

text \<open>
  \<open>schema.ParseGroupVersion\<close> of the Kubernetes library: the empty string and "/" give the
  empty group and version; a string without "/" is a version of the empty group; a string
  with one "/" is split there; more than one "/" is an error.
\<close>

definition ParseGroupVersion :: "string \<Rightarrow> error + GroupVersion" where
  "ParseGroupVersion gv =
     (if length gv = 0 \<or> gv = ''/'' then Inr (GV [] [])
      else (case count_list gv (CHR ''/'') of
              0 \<Rightarrow> Inr (GV [] gv)
            | Suc 0 \<Rightarrow>
                (let i = length (takeWhile (\<lambda>c. c \<noteq> CHR ''/'') gv)
                 in Inr (GV (take i gv) (drop (i + 1) gv)))
            | Suc (Suc _) \<Rightarrow> Inl (GroupVersionError gv)))"

fun WithResource :: "GroupVersion \<Rightarrow> string \<Rightarrow> GroupVersionResource" where
  "WithResource (GV g v) r = GVR g v r"

fun WithKind :: "GroupVersion \<Rightarrow> string \<Rightarrow> GroupVersionKind" where
  "WithKind (GV g v) k = GVK g v k"

text \<open>
  The method \<open>GroupVersionKind\<close> of an unstructured object gives the empty value when the
  apiVersion does not parse; \<open>String\<close> prints \<open>Group/Version, Kind=Kind\<close>.
\<close>

definition GroupVersionKind :: "unstructured \<Rightarrow> GroupVersionKind" where
  "GroupVersionKind u =
     (case ParseGroupVersion (GetAPIVersion u) of
        Inl err \<Rightarrow> GVK [] [] []
      | Inr gv \<Rightarrow> WithKind gv (GetKind u))"

fun String :: "GroupVersionKind \<Rightarrow> string" where
  "String (GVK g v k) = g @ ''/'' @ v @ '', Kind='' @ k"

text \<open>
  A \<open>dynamic.ResourceInterface\<close> is the address of a collection: the group, version and
  resource, and the namespace (empty for the cluster-wide collection).
\<close>

record ResourceInterface =
  resource :: GroupVersionResource
  namespace :: string

definition Resource :: "GroupVersionResource \<Rightarrow> ResourceInterface" where
  "Resource gvr = \<lparr>resource = gvr, namespace = []\<rparr>"

definition Namespace :: "ResourceInterface \<Rightarrow> string \<Rightarrow> ResourceInterface" where
  "Namespace c ns = c\<lparr>namespace := ns\<rparr>"

definition client :: "unstructured \<Rightarrow> error + ResourceInterface" where
  "client spec =
     (case ParseGroupVersion (GetAPIVersion spec) of
        Inl err \<Rightarrow> Inl err
      | Inr groupVersion \<Rightarrow>
          (let groupVersionResource = WithResource groupVersion (pluralize (GetKind spec));
               ns = GetNamespace spec
           in if ns = [] then Inr (Resource groupVersionResource)
              else Inr (Namespace (Resource groupVersionResource) ns)))"

section \<open>The remote API, the heap and the log\<close>

text \<open>
  The remote API behind \<open>dynamic.Interface\<close> is a parameter: any three functions on a
  remote state \<open>'r\<close>, each returning its answer and the next remote state. The handle that
  \<open>client\<close> returns in the source is the pair of the interface and the collection address;
  here the interface is passed to each call.
\<close>

record 'r dynamic_interface =
  do_Get :: "ResourceInterface \<Rightarrow> string \<Rightarrow> 'r \<Rightarrow> (error + unstructured) \<times> 'r"
  do_Create :: "ResourceInterface \<Rightarrow> unstructured \<Rightarrow> 'r \<Rightarrow> (error + unstructured) \<times> 'r"
  do_Delete :: "ResourceInterface \<Rightarrow> string \<Rightarrow> 'r \<Rightarrow> error option \<times> 'r"

datatype call =
    GetCall ResourceInterface string
  | CreateCall ResourceInterface unstructured
  | DeleteCall ResourceInterface string

datatype decode_error = EOF | YAMLSyntaxError string

datatype log_entry =
    LogInfo string "(string \<times> string) list"
  | LogError decode_error string

text \<open>
  Everything the engine reads and writes: the Go heap (\<open>objects\<close> maps the reference of
  an \<open>Object\<close> map to its contents, \<open>arrays\<close> maps the address of the backing array of a
  slice of \<open>Unstructured\<close> to the references it holds, \<open>next_object\<close> and \<open>next_array\<close> are
  the next unused reference and address), the state of the remote API, the remote
  requests issued so far, oldest first, and the lines logged so far.
\<close>

record 'r world =
  objects :: "nat \<Rightarrow> unstructured"
  arrays :: "nat \<Rightarrow> nat list"
  next_object :: nat
  next_array :: nat
  remote :: 'r
  calls :: "call list"
  logs :: "log_entry list"

record 'r YamlFile =
  name :: string
  dynamicClient :: "'r dynamic_interface"
  resources :: nat

datatype 'a outcome = Returns 'a | Panics string

definition c_Get ::
  "'r dynamic_interface \<Rightarrow> ResourceInterface \<Rightarrow> string \<Rightarrow> 'r world
    \<Rightarrow> (error + unstructured) \<times> 'r world" where
  "c_Get dc c nm w =
     (case do_Get dc c nm (remote w) of
        (res, r') \<Rightarrow> (res, w\<lparr>remote := r', calls := calls w @ [GetCall c nm]\<rparr>))"

definition c_Create ::
  "'r dynamic_interface \<Rightarrow> ResourceInterface \<Rightarrow> unstructured \<Rightarrow> 'r world
    \<Rightarrow> (error + unstructured) \<times> 'r world" where
  "c_Create dc c obj w =
     (case do_Create dc c obj (remote w) of
        (res, r') \<Rightarrow> (res, w\<lparr>remote := r', calls := calls w @ [CreateCall c obj]\<rparr>))"

definition c_Delete ::
  "'r dynamic_interface \<Rightarrow> ResourceInterface \<Rightarrow> string \<Rightarrow> 'r world
    \<Rightarrow> error option \<times> 'r world" where
  "c_Delete dc c nm w =
     (case do_Delete dc c nm (remote w) of
        (res, r') \<Rightarrow> (res, w\<lparr>remote := r', calls := calls w @ [DeleteCall c nm]\<rparr>))"

definition log_Info :: "string \<Rightarrow> (string \<times> string) list \<Rightarrow> 'r world \<Rightarrow> 'r world" where
  "log_Info msg kvs w = w\<lparr>logs := logs w @ [LogInfo msg kvs]\<rparr>"

text \<open>
  \<open>spec.SetOwnerReferences\<close> on a copy \<open>spec\<close> of a stored struct writes into the map
  that the copy shares with the stored struct.
\<close>

definition SetOwnerReferences :: "nat \<Rightarrow> OwnerReference list \<Rightarrow> 'r world \<Rightarrow> 'r world" where
  "SetOwnerReferences r refs w =
     w\<lparr>objects := (objects w)(r := (objects w r)\<lparr>GetOwnerReferences := refs\<rparr>)\<rparr>"

section \<open>Apply\<close>

text \<open>
  One iteration of the loop of \<open>Apply\<close> on the element with reference \<open>r\<close>: the result
  \<open>Some err\<close> is \<open>return err\<close>, the result \<open>None\<close> is \<open>continue\<close> or the end of the body.
  The owner is the referent of the pointer \<open>owner\<close>, which the caller passes non-nil.
\<close>

definition Apply_body ::
  "'r dynamic_interface \<Rightarrow> OwnerReference \<Rightarrow> nat \<Rightarrow> 'r world \<Rightarrow> error option \<times> 'r world" where
  "Apply_body dc owner r w =
     (case client (objects w r) of
        Inl err \<Rightarrow> (Some err, w)
      | Inr c \<Rightarrow>
          (case c_Get dc c (GetName (objects w r)) w of
             (Inr found, w1) \<Rightarrow> (None, w1)
           | (Inl err, w1) \<Rightarrow>
               if \<not> IsNotFound err then (Some err, w1)
               else
                 (let w2 = (if \<not> isClusterScoped (GetKind (objects w1 r))
                            then SetOwnerReferences r [owner] w1 else w1)
                  in case c_Create dc c (objects w2 r) w2 of
                       (Inl err, w3) \<Rightarrow>
                         if IsAlreadyExists err then (None, w3) else (Some err, w3)
                     | (Inr created, w3) \<Rightarrow>
                         (None,
                          log_Info ''Created resource''
                            [(''type'', String (GroupVersionKind (objects w3 r))),
                             (''name'', GetName (objects w3 r))] w3))))"

fun Apply_loop ::
  "'r dynamic_interface \<Rightarrow> OwnerReference \<Rightarrow> nat list \<Rightarrow> 'r world \<Rightarrow> error option \<times> 'r world" where
  "Apply_loop dc owner [] w = (None, w)"
| "Apply_loop dc owner (r # rs) w =
     (case Apply_body dc owner r w of
        (Some err, w') \<Rightarrow> (Some err, w')
      | (None, w') \<Rightarrow> Apply_loop dc owner rs w')"

definition Apply :: "'r YamlFile \<Rightarrow> OwnerReference \<Rightarrow> 'r world \<Rightarrow> error option \<times> 'r world" where
  "Apply f owner w = Apply_loop (dynamicClient f) owner (arrays w (resources f)) w"

section \<open>Delete\<close>

text \<open>
  The in-place reversal of \<open>Delete\<close>: \<open>left\<close> and \<open>right\<close> are Go \<open>int\<close>s (\<open>right\<close> starts
  at \<open>len(a)-1\<close>, which is \<open>-1\<close> for the empty slice). Indexing outside the slice panics.
\<close>

function reverse_loop :: "'a list \<Rightarrow> int \<Rightarrow> int \<Rightarrow> 'a list outcome" where
  "reverse_loop a left right =
     (if left < right
      then (if 0 \<le> left \<and> right < int (length a)
            then reverse_loop (a[nat left := a ! nat right, nat right := a ! nat left])
                   (left + 1) (right - 1)
            else Panics ''index out of range'')
      else Returns a)"
  by pat_completeness auto
termination
  by (relation "measure (\<lambda>(a, left, right). nat (right - left))") auto

declare reverse_loop.simps [simp del]

definition Delete_body :: "'r dynamic_interface \<Rightarrow> nat \<Rightarrow> 'r world \<Rightarrow> error option \<times> 'r world" where
  "Delete_body dc r w =
     (case client (objects w r) of
        Inl err \<Rightarrow> (Some err, w)
      | Inr c \<Rightarrow>
          (let w1 = log_Info ''Deleting resource''
                      [(''type'', String (GroupVersionKind (objects w r))),
                       (''name'', GetName (objects w r))] w
           in case c_Delete dc c (GetName (objects w1 r)) w1 of
                (ignored, w2) \<Rightarrow> (None, w2)))"

fun Delete_loop :: "'r dynamic_interface \<Rightarrow> nat list \<Rightarrow> 'r world \<Rightarrow> error option \<times> 'r world" where
  "Delete_loop dc [] w = (None, w)"
| "Delete_loop dc (r # rs) w =
     (case Delete_body dc r w of
        (Some err, w') \<Rightarrow> (Some err, w')
      | (None, w') \<Rightarrow> Delete_loop dc rs w')"

text \<open>
  \<open>make\<close> followed by \<open>copy\<close> gives a new backing array, at the next unused address,
  holding the elements of \<open>f.resources\<close>.
\<close>

definition make_copy :: "nat \<Rightarrow> 'r world \<Rightarrow> nat \<times> 'r world" where
  "make_copy src w =
     (let a = next_array w
      in (a, w\<lparr>arrays := (arrays w)(a := arrays w src), next_array := a + 1\<rparr>))"

definition Delete :: "'r YamlFile \<Rightarrow> 'r world \<Rightarrow> error option outcome \<times> 'r world" where
  "Delete f w =
     (case make_copy (resources f) w of
        (a, w1) \<Rightarrow>
          (case reverse_loop (arrays w1 a) 0 (int (length (arrays w1 a)) - 1) of
             Panics msg \<Rightarrow> (Panics msg, w1)
           | Returns reversed \<Rightarrow>
               (let w2 = w1\<lparr>arrays := (arrays w1)(a := reversed)\<rparr>
                in case Delete_loop (dynamicClient f) (arrays w2 a) w2 of
                     (err, w3) \<Rightarrow> (Returns err, w3))))"

section \<open>ResourceNames\<close>

definition ResourceNames :: "'r YamlFile \<Rightarrow> 'r world \<Rightarrow> string list" where
  "ResourceNames f w =
     map (\<lambda>r. GetName (objects w r) @ '' ('' @ String (GroupVersionKind (objects w r)) @ '')'')
       (arrays w (resources f))"

section \<open>Parsing\<close>

text \<open>
  The file system is a function from a path to the chunks that the library's document
  decoder reads from the file, one per document, in file order, or \<open>None\<close> when the file
  cannot be opened. The decoder of one chunk is a parameter \<open>dec\<close>. The two goroutines
  and the two channels of \<open>parse\<close> form a pipeline with one sender and one receiver at each
  channel, and a channel delivers in the order sent: the pipeline is the composition of
  \<open>read\<close> and \<open>decode\<close> on lists.
\<close>

definition read :: "(string \<Rightarrow> string list option) \<Rightarrow> string \<Rightarrow> string list outcome" where
  "read fs filename =
     (case fs filename of
        None \<Rightarrow> Panics ''open failed''
      | Some chunks \<Rightarrow> Returns chunks)"

fun decode ::
  "(string \<Rightarrow> decode_error + unstructured) \<Rightarrow> string list \<Rightarrow> unstructured list \<times> log_entry list" where
  "decode dec [] = ([], [])"
| "decode dec (buf # bufs) =
     (case dec buf of
        Inl err \<Rightarrow>
          (if err \<noteq> EOF
           then (case decode dec bufs of
                   (out, lg) \<Rightarrow> (out, LogError err ''Unable to decode YAML; ignoring'' # lg))
           else decode dec bufs)
      | Inr spec \<Rightarrow> (case decode dec bufs of (out, lg) \<Rightarrow> (spec # out, lg)))"

definition parse ::
  "(string \<Rightarrow> string list option) \<Rightarrow> (string \<Rightarrow> decode_error + unstructured) \<Rightarrow> string
    \<Rightarrow> (unstructured list \<times> log_entry list) outcome" where
  "parse fs dec filename =
     (case read fs filename of
        Panics msg \<Rightarrow> Panics msg
      | Returns chunks \<Rightarrow> Returns (decode dec chunks))"

text \<open>
  \<open>Decode\<close> of the library's \<open>YAMLToJSONDecoder\<close> on the reader of one chunk: an empty
  chunk gives \<open>io.EOF\<close>; otherwise the chunk is unmarshalled (a parameter), and a failure
  is a syntax error.
\<close>

definition YAMLToJSONDecoder_Decode ::
  "(string \<Rightarrow> string + unstructured) \<Rightarrow> string \<Rightarrow> decode_error + unstructured" where
  "YAMLToJSONDecoder_Decode unmarshal buf =
     (if buf = [] then Inl EOF
      else (case unmarshal buf of
              Inl msg \<Rightarrow> Inl (YAMLSyntaxError msg)
            | Inr u \<Rightarrow> Inr u))"

text \<open>
  \<open>NewYamlFile\<close> parses eagerly: each decoded object is a new map, and the result slice
  has a new backing array.
\<close>

definition NewYamlFile ::
  "(string \<Rightarrow> string list option) \<Rightarrow> (string \<Rightarrow> decode_error + unstructured) \<Rightarrow> string
    \<Rightarrow> 'r dynamic_interface \<Rightarrow> 'r world \<Rightarrow> ('r YamlFile \<times> 'r world) outcome" where
  "NewYamlFile fs dec path dc w =
     (case parse fs dec path of
        Panics msg \<Rightarrow> Panics msg
      | Returns (result, lg) \<Rightarrow>
          (let base = next_object w; n = length result; a = next_array w
           in Returns
                (\<lparr>name = path, dynamicClient = dc, resources = a\<rparr>,
                 w\<lparr>objects :=
                     (\<lambda>r. if base \<le> r \<and> r < base + n then result ! (r - base)
                          else objects w r),
                   arrays := (arrays w)(a := [base ..< base + n]),
                   next_object := base + n,
                   next_array := a + 1,
                   logs := logs w @ [LogInfo ''Reading YAML file'' [(''name'', path)]] @ lg\<rparr>)))"

text \<open>
  Modelled from the spec: the remote dynamic API handle of the specification's external
  interfaces, an object store keyed by collection and name, which is not part of the
  repository. \<open>get\<close> answers the object or not-found, \<open>create\<close> stores the object or
  answers already-exists, \<open>delete\<close> removes the object or answers not-found.
\<close>

type_synonym object_store = "ResourceInterface \<times> string \<rightharpoonup> unstructured"

definition store_Get ::
  "ResourceInterface \<Rightarrow> string \<Rightarrow> object_store
    \<Rightarrow> (error + unstructured) \<times> object_store" where
  "store_Get c nm s =
     (case s (c, nm) of None \<Rightarrow> (Inl (NotFound nm), s) | Some obj \<Rightarrow> (Inr obj, s))"

definition store_Create ::
  "ResourceInterface \<Rightarrow> unstructured \<Rightarrow> object_store
    \<Rightarrow> (error + unstructured) \<times> object_store" where
  "store_Create c obj s =
     (case s (c, GetName obj) of
        Some old \<Rightarrow> (Inl (AlreadyExists (GetName obj)), s)
      | None \<Rightarrow> (Inr obj, s((c, GetName obj) \<mapsto> obj)))"

definition store_Delete ::
  "ResourceInterface \<Rightarrow> string \<Rightarrow> object_store
    \<Rightarrow> error option \<times> object_store" where
  "store_Delete c nm s =
     (case s (c, nm) of
        None \<Rightarrow> (Some (NotFound nm), s)
      | Some obj \<Rightarrow> (None, s((c, nm) := None)))"

definition store :: "object_store dynamic_interface" where
  "store = \<lparr>do_Get = store_Get, do_Create = store_Create, do_Delete = store_Delete\<rparr>"

section \<open>Vocabulary of the properties\<close>

text \<open>
  The object that \<open>Apply\<close> sends when it creates \<open>x\<close> with the owner \<open>owner\<close>; the remote
  requests of one iteration of \<open>Apply\<close> on \<open>x\<close> (the existence check, followed by the
  create when \<open>create\<close> holds; none when the endpoint cannot be resolved); the request of
  one iteration of \<open>Delete\<close>; and the collection and name under which \<open>x\<close> is looked up.
\<close>

definition with_owner :: "OwnerReference \<Rightarrow> unstructured \<Rightarrow> unstructured" where
  "with_owner owner x =
     (if isClusterScoped (GetKind x) then x else x\<lparr>GetOwnerReferences := [owner]\<rparr>)"

definition requests :: "OwnerReference \<Rightarrow> unstructured \<Rightarrow> bool \<Rightarrow> call list" where
  "requests owner x create =
     (case client x of
        Inl err \<Rightarrow> []
      | Inr c \<Rightarrow> GetCall c (GetName x) # (if create then [CreateCall c (with_owner owner x)] else []))"

definition resolvable :: "unstructured \<Rightarrow> bool" where
  "resolvable x = (case client x of Inl err \<Rightarrow> False | Inr c \<Rightarrow> True)"

definition delete_requests :: "unstructured \<Rightarrow> call list" where
  "delete_requests x =
     (case client x of Inl err \<Rightarrow> [] | Inr c \<Rightarrow> [DeleteCall c (GetName x)])"

definition keys :: "unstructured \<Rightarrow> (ResourceInterface \<times> string) list" where
  "keys x = (case client x of Inl err \<Rightarrow> [] | Inr c \<Rightarrow> [(c, GetName x)])"

fun created :: "call \<Rightarrow> (ResourceInterface \<times> string) list" where
  "created (CreateCall c obj) = [(c, GetName obj)]"
| "created (GetCall c nm) = []"
| "created (DeleteCall c nm) = []"

fun is_delete :: "call \<Rightarrow> bool" where
  "is_delete (DeleteCall c nm) = True"
| "is_delete (GetCall c nm) = False"
| "is_delete (CreateCall c obj) = False"

text \<open>The requests issued between an earlier world and a later one.\<close>

definition issued :: "'r world \<Rightarrow> 'r world \<Rightarrow> call list" where
  "issued w w' = drop (length (calls w)) (calls w')"

text \<open>
  Two heaps agree up to the owner \<open>owner\<close> when every object of the second is the object
  of the first, or that object as \<open>Apply\<close> sends it.
\<close>

definition owned :: "OwnerReference \<Rightarrow> 'r world \<Rightarrow> 'r world \<Rightarrow> bool" where
  "owned owner w w' =
     (\<forall>r. objects w' r = objects w r \<or> objects w' r = with_owner owner (objects w r))"

text \<open>A sequence of calls on one engine, whatever each call returns.\<close>

datatype operation = ApplyOp OwnerReference | DeleteOp

fun run :: "'r YamlFile \<Rightarrow> operation list \<Rightarrow> 'r world \<Rightarrow> 'r world" where
  "run f [] w = w"
| "run f (ApplyOp owner # ops) w = run f ops (snd (Apply f owner w))"
| "run f (DeleteOp # ops) w = run f ops (snd (Delete f w))"

text \<open>The owners passed to the \<open>Apply\<close> calls of a sequence.\<close>

fun owners :: "operation list \<Rightarrow> OwnerReference list" where
  "owners [] = []"
| "owners (ApplyOp owner # ops) = owner # owners ops"
| "owners (DeleteOp # ops) = owners ops"

section \<open>A manifest of three resources\<close>

text \<open>
  The running example: a namespaced Deployment, a cluster-scoped
  CustomResourceDefinition and a namespaced Service, stored in this order by an engine
  whose slice is the array at address 0; and a second manifest whose last resource has
  an apiVersion with two slashes.
\<close>

definition deployment :: unstructured where
  "deployment = \<lparr>GetAPIVersion = ''apps/v1'', GetKind = ''Deployment'',
     GetNamespace = ''kn'', GetName = ''controller'', GetOwnerReferences = [],
     payload = ''replicas: 1''\<rparr>"

definition crd :: unstructured where
  "crd = \<lparr>GetAPIVersion = ''apiextensions.k8s.io/v1beta1'',
     GetKind = ''CustomResourceDefinition'', GetNamespace = [], GetName = ''routes'',
     GetOwnerReferences = [], payload = ''scope: Namespaced''\<rparr>"

definition service :: unstructured where
  "service = \<lparr>GetAPIVersion = ''v1'', GetKind = ''Service'',
     GetNamespace = ''kn'', GetName = ''activator'', GetOwnerReferences = [],
     payload = ''port: 80''\<rparr>"

definition malformed :: unstructured where
  "malformed = \<lparr>GetAPIVersion = ''a/b/c'', GetKind = ''Service'',
     GetNamespace = ''kn'', GetName = ''broken'', GetOwnerReferences = [],
     payload = []\<rparr>"

definition install :: OwnerReference where
  "install = OwnerReference ''serving.knative.dev/v1alpha1'' ''Install'' ''auto-install'' ''uid-1''"

definition manifest_world :: "'r \<Rightarrow> 'r world" where
  "manifest_world s =
     \<lparr>objects = (\<lambda>r. if r = 0 then deployment else if r = 1 then crd else service),
      arrays = (\<lambda>a. if a = 0 then [0, 1, 2] else []),
      next_object = 3, next_array = 1, remote = s, calls = [], logs = []\<rparr>"

definition broken_world :: "'r \<Rightarrow> 'r world" where
  "broken_world s =
     \<lparr>objects = (\<lambda>r. if r = 0 then deployment else malformed),
      arrays = (\<lambda>a. if a = 0 then [0, 1] else []),
      next_object = 2, next_array = 1, remote = s, calls = [], logs = []\<rparr>"

definition empty_cluster :: "object_store world" where
  "empty_cluster = manifest_world Map.empty"

definition broken_cluster :: "object_store world" where
  "broken_cluster = broken_world Map.empty"

definition engine :: "'r dynamic_interface \<Rightarrow> 'r YamlFile" where
  "engine dc = \<lparr>name = ''/tmp/knative-serving.yaml'', dynamicClient = dc, resources = 0\<rparr>"

text \<open>A remote API that refuses to create objects of one name, and is the store otherwise.\<close>

definition refusing :: "string \<Rightarrow> object_store dynamic_interface" where
  "refusing bad =
     \<lparr>do_Get = store_Get,
      do_Create = (\<lambda>c obj s. if GetName obj = bad then (Inl (OtherError ''refused''), s)
                              else store_Create c obj s),
      do_Delete = store_Delete\<rparr>"

text \<open>
  A remote API in a race with another actor: every existence check answers not-found and
  every create answers already-exists.
\<close>

definition racing :: "object_store dynamic_interface" where
  "racing =
     \<lparr>do_Get = (\<lambda>c nm s. (Inl (NotFound nm), s)),
      do_Create = (\<lambda>c obj s. (Inl (AlreadyExists (GetName obj)), s)),
      do_Delete = store_Delete\<rparr>"

text \<open>
  A manifest file of four documents, the second empty and the third malformed, and an
  unmarshaller that knows the two well-formed ones.
\<close>

definition example_unmarshal :: "string \<Rightarrow> string + unstructured" where
  "example_unmarshal buf =
     (if buf = ''kind: Deployment'' then Inr deployment
      else if buf = ''kind: Service'' then Inr service
      else Inl ''cannot unmarshal'')"

definition example_files :: "string \<Rightarrow> string list option" where
  "example_files path =
     (if path = ''m.yaml'' then Some [''kind: Deployment'', [], ''{'', ''kind: Service'']
      else None)"

section \<open>Pluralization\<close>

lemma HasSuffix_iff_suffix: "HasSuffix s sfx \<longleftrightarrow> suffix sfx s"
proof
  assume "HasSuffix s sfx"
  then have "s = take (length s - length sfx) s @ sfx"
    by (metis HasSuffix_def append_take_drop_id)
  then show "suffix sfx s"
    by (metis suffixI)
next
  assume "suffix sfx s"
  then obtain p where "s = p @ sfx"
    by (auto simp: suffix_def)
  then show "HasSuffix s sfx"
    by (simp add: HasSuffix_def)
qed

lemma suffix_policy_ends_in_y: "suffix ''policy'' k \<Longrightarrow> butlast k @ ''y'' = k"
  by (auto simp: suffix_def butlast_append)

lemma ToLower_Service: "ToLower ''Service'' = ''service''"
  by code_simp

lemma ToLower_NetworkPolicy: "ToLower ''NetworkPolicy'' = ''networkpolicy''"
  by code_simp

lemma ToLower_Ingress: "ToLower ''Ingress'' = ''ingress''"
  by code_simp

text \<open>
  C6. For every kind, \<open>pluralize\<close> computes the rule of the specification: the
  lower-cased kind followed by "es" when it ends in "s"; otherwise, when it ends in
  "policy", the lower-cased kind without its last character, which is "y", followed by
  "ies"; otherwise the lower-cased kind followed by "s". "Service" gives "services",
  "NetworkPolicy" gives "networkpolicies" and "Ingress" gives "ingresses".
\<close>

theorem pluralize_rule:
  "pluralize kind = pluralize_spec kind
   \<and> (suffix ''policy'' (ToLower kind) \<longrightarrow> butlast (ToLower kind) @ ''y'' = ToLower kind)
   \<and> pluralize ''Service'' = ''services''
   \<and> pluralize ''NetworkPolicy'' = ''networkpolicies''
   \<and> pluralize ''Ingress'' = ''ingresses''"
proof -
  have eq: "pluralize kind = pluralize_spec kind"
    by (simp add: pluralize_def pluralize_spec_def HasSuffix_iff_suffix
        butlast_conv_take Let_def)
  have y: "suffix ''policy'' (ToLower kind) \<longrightarrow> butlast (ToLower kind) @ ''y'' = ToLower kind"
    using suffix_policy_ends_in_y by blast
  have s: "pluralize ''Service'' = ''services''"
    by (simp add: pluralize_def ToLower_Service HasSuffix_def)
  have n: "pluralize ''NetworkPolicy'' = ''networkpolicies''"
    by (simp add: pluralize_def ToLower_NetworkPolicy HasSuffix_def)
  have i: "pluralize ''Ingress'' = ''ingresses''"
    by (simp add: pluralize_def ToLower_Ingress HasSuffix_def)
  from eq y s n i show ?thesis by blast
qed

theorem pluralize_rule_witness:
  "suffix ''policy'' (ToLower ''NetworkPolicy'')
   \<and> butlast (ToLower ''NetworkPolicy'') @ ''y'' = ToLower ''NetworkPolicy''
   \<and> pluralize ''NetworkPolicy'' = pluralize_spec ''NetworkPolicy''
   \<and> pluralize_spec ''NetworkPolicy'' = ''networkpolicies''"
proof -
  have h: "suffix ''policy'' (ToLower ''NetworkPolicy'')"
    by (simp add: ToLower_NetworkPolicy suffix_def)
  show ?thesis
    using h pluralize_rule [of "''NetworkPolicy''"] by metis
qed

section \<open>The in-place reversal\<close>

lemma reverse_loop_nth:
  "0 \<le> l \<Longrightarrow> r < int (length a) \<Longrightarrow>
   \<exists>b. reverse_loop a l r = Returns b \<and> length b = length a \<and>
       (\<forall>i < length a. b ! i = (if l \<le> int i \<and> int i \<le> r then a ! nat (l + r - int i) else a ! i))"
proof (induction a l r rule: reverse_loop.induct)
  case (1 a left right)
  show ?case
  proof (cases "left < right")
    case False
    then have "\<forall>i < length a. (left \<le> int i \<and> int i \<le> right) \<longrightarrow> nat (left + right - int i) = i"
      by auto
    with False show ?thesis
      by (subst reverse_loop.simps) auto
  next
    case True
    let ?a' = "a[nat left := a ! nat right, nat right := a ! nat left]"
    from 1 True obtain b where b: "reverse_loop ?a' (left + 1) (right - 1) = Returns b"
      "length b = length a"
      "\<forall>i < length a. b ! i = (if left + 1 \<le> int i \<and> int i \<le> right - 1
          then ?a' ! nat (left + 1 + (right - 1) - int i) else ?a' ! i)"
      by auto
    have r: "reverse_loop a left right = Returns b"
      using True 1(2,3) b(1) by (subst reverse_loop.simps) simp
    have "b ! i = (if left \<le> int i \<and> int i \<le> right then a ! nat (left + right - int i) else a ! i)"
      if "i < length a" for i
    proof -
      consider "int i < left" | "int i = left" | "left < int i" "int i < right" | "int i = right" | "right < int i"
        by linarith
      then show ?thesis
      proof cases
        case 1 with that b(3) True show ?thesis by (auto simp: nth_list_update)
      next
        case 2 with that b(3) True \<open>0 \<le> left\<close> \<open>right < int (length a)\<close> show ?thesis
          by (auto simp: nth_list_update)
      next
        case 3
        then have "nat (left + 1 + (right - 1) - int i) \<noteq> nat left" "nat (left + 1 + (right - 1) - int i) \<noteq> nat right"
          using \<open>0 \<le> left\<close> by auto
        moreover have "left + 1 + (right - 1) - int i = left + right - int i" by simp
        ultimately show ?thesis using 3 that b(3) True by (auto simp: nth_list_update)
      next
        case 4 with that b(3) True \<open>0 \<le> left\<close> \<open>right < int (length a)\<close> show ?thesis
          by (auto simp: nth_list_update)
      next
        case 5 with that b(3) True \<open>0 \<le> left\<close> show ?thesis by (auto simp: nth_list_update)
      qed
    qed
    with r b(2) show ?thesis by blast
  qed
qed

lemma reverse_loop_rev: "reverse_loop a 0 (int (length a) - 1) = Returns (rev a)"
proof -
  obtain b where b: "reverse_loop a 0 (int (length a) - 1) = Returns b" "length b = length a"
    "\<forall>i < length a. b ! i = (if 0 \<le> int i \<and> int i \<le> int (length a) - 1
        then a ! nat (0 + (int (length a) - 1) - int i) else a ! i)"
    using reverse_loop_nth [of 0 "int (length a) - 1" a] by auto
  have "b = rev a"
  proof (rule nth_equalityI)
    show "length b = length (rev a)" using b(2) by simp
  next
    fix i assume "i < length b"
    then have i: "i < length a" using b(2) by simp
    then have "nat (0 + (int (length a) - 1) - int i) = length a - Suc i" by auto
    with i b(3) show "b ! i = rev a ! i" by (auto simp: rev_nth)
  qed
  with b(1) show ?thesis by simp
qed

section \<open>One run of the loop of Apply\<close>

lemma with_owner_simps [simp]:
  "GetAPIVersion (with_owner owner x) = GetAPIVersion x"
  "GetKind (with_owner owner x) = GetKind x"
  "GetNamespace (with_owner owner x) = GetNamespace x"
  "GetName (with_owner owner x) = GetName x"
  "payload (with_owner owner x) = payload x"
  by (simp_all add: with_owner_def)

lemma with_owner_idem [simp]: "with_owner owner (with_owner owner x) = with_owner owner x"
  by (simp add: with_owner_def)

lemma client_with_owner [simp]: "client (with_owner owner x) = client x"
  by (simp add: client_def split: sum.splits)

lemma client_update_owner [simp]: "client (x\<lparr>GetOwnerReferences := refs\<rparr>) = client x"
  by (simp add: client_def split: sum.splits)

lemma requests_with_owner [simp]: "requests owner (with_owner owner x) b = requests owner x b"
  by (simp add: requests_def split: sum.splits)

lemma owned_refl [simp]: "owned owner w w"
  by (simp add: owned_def)

lemma owned_trans: "owned owner w w1 \<Longrightarrow> owned owner w1 w2 \<Longrightarrow> owned owner w w2"
  unfolding owned_def by (metis with_owner_idem)

lemma owned_requests: "owned owner w w' \<Longrightarrow> requests owner (objects w' r) b = requests owner (objects w r) b"
  unfolding owned_def by (metis requests_with_owner)

lemma owned_client: "owned owner w w' \<Longrightarrow> client (objects w' r) = client (objects w r)"
  unfolding owned_def by (metis client_with_owner)

lemma owned_resolvable: "owned owner w w' \<Longrightarrow> resolvable (objects w' r) = resolvable (objects w r)"
  by (simp add: resolvable_def owned_client)

lemma Apply_body_frame:
  assumes "Apply_body dc owner r w = (e, w')"
  shows "arrays w' = arrays w" "next_array w' = next_array w" "next_object w' = next_object w"
    "objects w' = objects w \<or> objects w' = (objects w)(r := with_owner owner (objects w r))"
  using assms
  by (auto simp: Apply_body_def c_Get_def c_Create_def log_Info_def SetOwnerReferences_def
      with_owner_def Let_def split: sum.splits prod.splits if_splits)

lemma Apply_body_owned: "Apply_body dc owner r w = (e, w') \<Longrightarrow> owned owner w w'"
  using Apply_body_frame(4) [of dc owner r w e w'] by (auto simp: owned_def)

lemma Apply_body_calls:
  assumes "Apply_body dc owner r w = (e, w')"
  shows "\<exists>b. calls w' = calls w @ requests owner (objects w r) b"
proof (cases "client (objects w r)")
  case (Inl err)
  with assms show ?thesis by (auto simp: Apply_body_def requests_def)
next
  case (Inr c)
  obtain res s1 where g: "do_Get dc c (GetName (objects w r)) (remote w) = (res, s1)"
    by (cases "do_Get dc c (GetName (objects w r)) (remote w)")
  show ?thesis
  proof (cases "\<exists>err. res = Inl err \<and> IsNotFound err")
    case False
    with assms Inr g have "calls w' = calls w @ requests owner (objects w r) False"
      by (auto simp: Apply_body_def c_Get_def requests_def split: sum.splits)
    then show ?thesis by blast
  next
    case True
    with assms Inr g have "calls w' = calls w @ requests owner (objects w r) True"
      by (auto simp: Apply_body_def c_Get_def c_Create_def log_Info_def SetOwnerReferences_def
          requests_def with_owner_def Let_def split: sum.splits prod.splits if_splits)
    then show ?thesis by blast
  qed
qed

lemma Apply_loop_frame:
  "Apply_loop dc owner rs w = (e, w') \<Longrightarrow>
   arrays w' = arrays w \<and> next_array w' = next_array w \<and> next_object w' = next_object w
   \<and> owned owner w w'"
proof (induction rs arbitrary: w)
  case Nil
  then show ?case by simp
next
  case (Cons r rs)
  obtain e1 w1 where b: "Apply_body dc owner r w = (e1, w1)"
    by (cases "Apply_body dc owner r w")
  note f = Apply_body_frame(1-3) [OF b] Apply_body_owned [OF b]
  show ?case
  proof (cases e1)
    case (Some err)
    with Cons.prems b f show ?thesis by simp
  next
    case None
    with Cons.prems b have "Apply_loop dc owner rs w1 = (e, w')" by simp
    from Cons.IH [OF this] f show ?thesis by (auto intro: owned_trans)
  qed
qed

lemma Apply_loop_calls:
  "Apply_loop dc owner rs w = (e, w') \<Longrightarrow>
   \<exists>bs. length bs \<le> length rs \<and> (e = None \<longrightarrow> length bs = length rs)
      \<and> calls w' = calls w @ concat (map2 (\<lambda>r b. requests owner (objects w r) b) rs bs)"
proof (induction rs arbitrary: w)
  case Nil
  then show ?case by simp
next
  case (Cons r rs)
  obtain e1 w1 where b: "Apply_body dc owner r w = (e1, w1)"
    by (cases "Apply_body dc owner r w")
  from Apply_body_calls [OF b] obtain b0 where
    c1: "calls w1 = calls w @ requests owner (objects w r) b0" by blast
  show ?case
  proof (cases e1)
    case (Some err)
    with Cons.prems b have "e = Some err" "w' = w1" by simp_all
    with c1 have "length [b0] \<le> length (r # rs) \<and> (e = None \<longrightarrow> length [b0] = length (r # rs))
      \<and> calls w' = calls w @ concat (map2 (\<lambda>r b. requests owner (objects w r) b) (r # rs) [b0])"
      by simp
    then show ?thesis by blast
  next
    case None
    with Cons.prems b have l: "Apply_loop dc owner rs w1 = (e, w')" by simp
    from Cons.IH [OF l] obtain bs where bs: "length bs \<le> length rs"
      "e = None \<longrightarrow> length bs = length rs"
      "calls w' = calls w1 @ concat (map2 (\<lambda>r b. requests owner (objects w1 r) b) rs bs)"
      by blast
    have "(\<lambda>r b. requests owner (objects w1 r) b) = (\<lambda>r b. requests owner (objects w r) b)"
      using owned_requests [OF Apply_body_owned [OF b]] by auto
    with bs(3) c1 have "calls w' = calls w @ concat (map2 (\<lambda>r b. requests owner (objects w r) b) (r # rs) (b0 # bs))"
      by simp
    moreover have "length (b0 # bs) \<le> length (r # rs)" using bs(1) by simp
    moreover have "e = None \<longrightarrow> length (b0 # bs) = length (r # rs)" using bs(2) by simp
    ultimately show ?thesis by blast
  qed
qed

lemma Apply_loop_append:
  "Apply_loop dc owner (xs @ ys) w =
     (case Apply_loop dc owner xs w of
        (Some err, w1) \<Rightarrow> (Some err, w1)
      | (None, w1) \<Rightarrow> Apply_loop dc owner ys w1)"
  by (induction xs arbitrary: w) (auto split: prod.splits option.splits)

lemma Apply_body_None_resolvable:
  "Apply_body dc owner r w = (None, w') \<Longrightarrow> resolvable (objects w r)"
  by (auto simp: Apply_body_def resolvable_def split: sum.splits)

lemma Apply_loop_None_resolvable:
  "Apply_loop dc owner rs w = (None, w') \<Longrightarrow> \<forall>r \<in> set rs. resolvable (objects w r)"
proof (induction rs arbitrary: w)
  case Nil
  then show ?case by simp
next
  case (Cons r rs)
  obtain e1 w1 where b: "Apply_body dc owner r w = (e1, w1)"
    by (cases "Apply_body dc owner r w")
  with Cons.prems have e1: "e1 = None" and l: "Apply_loop dc owner rs w1 = (None, w')"
    by (auto split: option.splits)
  from b e1 have "resolvable (objects w r)"
    using Apply_body_None_resolvable by blast
  moreover from Cons.IH [OF l] have "\<forall>r \<in> set rs. resolvable (objects w r)"
    using owned_resolvable [OF Apply_body_owned [OF b]] by simp
  ultimately show ?case by simp
qed

section \<open>One run of the loop of Delete\<close>

lemma Delete_body_eq:
  "Delete_body dc r w =
     (case client (objects w r) of
        Inl err \<Rightarrow> (Some err, w)
      | Inr c \<Rightarrow>
          (None, w\<lparr>remote := snd (do_Delete dc c (GetName (objects w r)) (remote w)),
                   calls := calls w @ [DeleteCall c (GetName (objects w r))],
                   logs := logs w @ [LogInfo ''Deleting resource''
                      [(''type'', String (GroupVersionKind (objects w r))),
                       (''name'', GetName (objects w r))]]\<rparr>))"
  by (simp add: Delete_body_def c_Delete_def log_Info_def Let_def split: sum.splits prod.splits)

lemma Delete_body_frame:
  assumes "Delete_body dc r w = (e, w')"
  shows "objects w' = objects w" "arrays w' = arrays w" "next_array w' = next_array w"
    "next_object w' = next_object w"
    "calls w' = calls w @ delete_requests (objects w r)"
    "e = (case client (objects w r) of Inl err \<Rightarrow> Some err | Inr c \<Rightarrow> None)"
  using assms by (auto simp: Delete_body_eq delete_requests_def split: sum.splits)

lemma Delete_loop_frame:
  "Delete_loop dc rs w = (e, w') \<Longrightarrow>
   objects w' = objects w \<and> arrays w' = arrays w \<and> next_array w' = next_array w
   \<and> next_object w' = next_object w"
proof (induction rs arbitrary: w)
  case Nil
  then show ?case by simp
next
  case (Cons r rs)
  obtain e1 w1 where b: "Delete_body dc r w = (e1, w1)"
    by (cases "Delete_body dc r w")
  note f = Delete_body_frame(1-4) [OF b]
  show ?case
  proof (cases e1)
    case (Some err)
    with Cons.prems b f show ?thesis by simp
  next
    case None
    with Cons.prems b have "Delete_loop dc rs w1 = (e, w')" by simp
    from Cons.IH [OF this] f show ?thesis by simp
  qed
qed

lemma Delete_loop_calls:
  "Delete_loop dc rs w = (e, w') \<Longrightarrow>
   calls w' = calls w @ concat (map (\<lambda>r. delete_requests (objects w r))
                                  (takeWhile (\<lambda>r. resolvable (objects w r)) rs))"
proof (induction rs arbitrary: w)
  case Nil
  then show ?case by simp
next
  case (Cons r rs)
  obtain e1 w1 where b: "Delete_body dc r w = (e1, w1)"
    by (cases "Delete_body dc r w")
  note f = Delete_body_frame [OF b]
  show ?case
  proof (cases "client (objects w r)")
    case (Inl err)
    with Cons.prems b f show ?thesis
      by (simp add: resolvable_def delete_requests_def)
  next
    case (Inr c)
    with f(6) have "e1 = None" by simp
    with Cons.prems b have "Delete_loop dc rs w1 = (e, w')" by simp
    from Cons.IH [OF this] f(1,5) Inr show ?thesis
      by (simp add: resolvable_def)
  qed
qed

lemma Delete_loop_error:
  "Delete_loop dc rs w = (e, w') \<Longrightarrow>
   e = (case dropWhile (\<lambda>r. resolvable (objects w r)) rs of
          [] \<Rightarrow> None
        | r # rest \<Rightarrow> (case client (objects w r) of Inl err \<Rightarrow> Some err | Inr c \<Rightarrow> None))"
proof (induction rs arbitrary: w)
  case Nil
  then show ?case by simp
next
  case (Cons r rs)
  obtain e1 w1 where b: "Delete_body dc r w = (e1, w1)"
    by (cases "Delete_body dc r w")
  note f = Delete_body_frame [OF b]
  show ?case
  proof (cases "client (objects w r)")
    case (Inl err)
    with Cons.prems b f show ?thesis
      by (simp add: resolvable_def)
  next
    case (Inr c)
    with f(6) have "e1 = None" by simp
    with Cons.prems b have "Delete_loop dc rs w1 = (e, w')" by simp
    from Cons.IH [OF this] have "e = (case dropWhile (\<lambda>r. resolvable (objects w r)) rs of
          [] \<Rightarrow> None
        | r # rest \<Rightarrow> (case client (objects w r) of Inl err \<Rightarrow> Some err | Inr c \<Rightarrow> None))"
      unfolding f(1) .
    with Inr show ?thesis
      by (simp add: resolvable_def)
  qed
qed

lemma Delete_eq:
  "Delete f w =
     (case Delete_loop (dynamicClient f) (rev (arrays w (resources f)))
             (w\<lparr>next_array := Suc (next_array w),
                arrays := (arrays w)(next_array w := rev (arrays w (resources f)))\<rparr>) of
        (err, w3) \<Rightarrow> (Returns err, w3))"
  by (simp add: Delete_def make_copy_def reverse_loop_rev Let_def)

section \<open>Apply and Delete as a whole\<close>

lemma issued_append: "calls w' = calls w @ cs \<Longrightarrow> issued w w' = cs"
  by (simp add: issued_def)

lemma Apply_issued:
  "\<exists>bs. length bs \<le> length (arrays w (resources f))
      \<and> (fst (Apply f owner w) = None \<longrightarrow> length bs = length (arrays w (resources f)))
      \<and> issued w (snd (Apply f owner w)) =
          concat (map2 (\<lambda>r b. requests owner (objects w r) b) (arrays w (resources f)) bs)"
proof -
  obtain e w' where a: "Apply_loop (dynamicClient f) owner (arrays w (resources f)) w = (e, w')"
    by (cases "Apply_loop (dynamicClient f) owner (arrays w (resources f)) w")
  from Apply_loop_calls [OF a] obtain bs where bs: "length bs \<le> length (arrays w (resources f))"
    "e = None \<longrightarrow> length bs = length (arrays w (resources f))"
    "calls w' = calls w @ concat (map2 (\<lambda>r b. requests owner (objects w r) b) (arrays w (resources f)) bs)"
    by blast
  from a have "fst (Apply f owner w) = e" "snd (Apply f owner w) = w'"
    by (simp_all add: Apply_def)
  with bs issued_append [OF bs(3)] show ?thesis by auto
qed

lemma Apply_frame:
  "arrays (snd (Apply f owner w)) = arrays w"
  "next_array (snd (Apply f owner w)) = next_array w"
  "next_object (snd (Apply f owner w)) = next_object w"
  "owned owner w (snd (Apply f owner w))"
proof -
  obtain e w' where a: "Apply_loop (dynamicClient f) owner (arrays w (resources f)) w = (e, w')"
    by (cases "Apply_loop (dynamicClient f) owner (arrays w (resources f)) w")
  then have s: "snd (Apply f owner w) = w'" by (simp add: Apply_def)
  from Apply_loop_frame [OF a] s
  show "arrays (snd (Apply f owner w)) = arrays w"
    "next_array (snd (Apply f owner w)) = next_array w"
    "next_object (snd (Apply f owner w)) = next_object w"
    "owned owner w (snd (Apply f owner w))"
    by simp_all
qed

lemma Apply_None_resolvable:
  assumes "fst (Apply f owner w) = None"
  shows "\<forall>r \<in> set (arrays w (resources f)). resolvable (objects w r)"
proof -
  from assms have "Apply_loop (dynamicClient f) owner (arrays w (resources f)) w
      = (None, snd (Apply f owner w))"
    by (simp add: Apply_def prod_eq_iff)
  then show ?thesis by (rule Apply_loop_None_resolvable)
qed

lemma Delete_result:
  obtains e w' where
    "Delete f w = (Returns e, w')"
    "Delete_loop (dynamicClient f) (rev (arrays w (resources f)))
       (w\<lparr>next_array := Suc (next_array w),
          arrays := (arrays w)(next_array w := rev (arrays w (resources f)))\<rparr>) = (e, w')"
proof -
  let ?w2 = "w\<lparr>next_array := Suc (next_array w),
          arrays := (arrays w)(next_array w := rev (arrays w (resources f)))\<rparr>"
  obtain e w' where l: "Delete_loop (dynamicClient f) (rev (arrays w (resources f))) ?w2 = (e, w')"
    by (cases "Delete_loop (dynamicClient f) (rev (arrays w (resources f))) ?w2")
  then have "Delete f w = (Returns e, w')"
    by (simp add: Delete_eq)
  with l that show ?thesis by blast
qed

lemma Delete_frame:
  "objects (snd (Delete f w)) = objects w"
  "next_object (snd (Delete f w)) = next_object w"
  "next_array (snd (Delete f w)) = Suc (next_array w)"
  "arrays (snd (Delete f w)) = (arrays w)(next_array w := rev (arrays w (resources f)))"
proof -
  obtain e w' where d: "Delete f w = (Returns e, w')"
    and l: "Delete_loop (dynamicClient f) (rev (arrays w (resources f)))
       (w\<lparr>next_array := Suc (next_array w),
          arrays := (arrays w)(next_array w := rev (arrays w (resources f)))\<rparr>) = (e, w')"
    by (rule Delete_result)
  from Delete_loop_frame [OF l] d
  show "objects (snd (Delete f w)) = objects w"
    "next_object (snd (Delete f w)) = next_object w"
    "next_array (snd (Delete f w)) = Suc (next_array w)"
    "arrays (snd (Delete f w)) = (arrays w)(next_array w := rev (arrays w (resources f)))"
    by simp_all
qed

lemma Delete_issued:
  "issued w (snd (Delete f w)) =
     concat (map (\<lambda>r. delete_requests (objects w r))
       (takeWhile (\<lambda>r. resolvable (objects w r)) (rev (arrays w (resources f)))))"
proof -
  obtain e w' where d: "Delete f w = (Returns e, w')"
    and l: "Delete_loop (dynamicClient f) (rev (arrays w (resources f)))
       (w\<lparr>next_array := Suc (next_array w),
          arrays := (arrays w)(next_array w := rev (arrays w (resources f)))\<rparr>) = (e, w')"
    by (rule Delete_result)
  from Delete_loop_calls [OF l] d show ?thesis
    by (simp add: issued_def)
qed

lemma Delete_error:
  "fst (Delete f w) =
     Returns (case dropWhile (\<lambda>r. resolvable (objects w r)) (rev (arrays w (resources f))) of
          [] \<Rightarrow> None
        | r # rest \<Rightarrow> (case client (objects w r) of Inl err \<Rightarrow> Some err | Inr c \<Rightarrow> None))"
proof -
  obtain e w' where d: "Delete f w = (Returns e, w')"
    and l: "Delete_loop (dynamicClient f) (rev (arrays w (resources f)))
       (w\<lparr>next_array := Suc (next_array w),
          arrays := (arrays w)(next_array w := rev (arrays w (resources f)))\<rparr>) = (e, w')"
    by (rule Delete_result)
  from Delete_loop_error [OF l] d show ?thesis
    by (simp cong: list.case_cong)
qed

lemma takeWhile_all: "\<forall>x\<in>set xs. P x \<Longrightarrow> takeWhile P xs = xs"
  by (induction xs) auto

lemma dropWhile_all: "\<forall>x\<in>set xs. P x \<Longrightarrow> dropWhile P xs = []"
  by (induction xs) auto

lemma client_error: "client x = Inl e \<Longrightarrow> e = GroupVersionError (GetAPIVersion x)"
  by (auto simp: client_def ParseGroupVersion_def Let_def split: sum.splits if_splits nat.splits)

section \<open>The example manifests evaluated\<close>

lemma manifest_array [simp]: "arrays (manifest_world s) (resources (engine dc)) = [0, 1, 2]"
  by (simp add: manifest_world_def engine_def)

lemma broken_array [simp]: "arrays (broken_world s) (resources (engine dc)) = [0, 1]"
  by (simp add: broken_world_def engine_def)

lemma manifest_objects [simp]:
  "objects (manifest_world s) r = (if r = 0 then deployment else if r = 1 then crd else service)"
  by (simp add: manifest_world_def)

lemma broken_objects [simp]:
  "objects (broken_world s) r = (if r = 0 then deployment else malformed)"
  by (simp add: broken_world_def)

lemma cluster_simps [simp]:
  "arrays empty_cluster (resources (engine dc)) = [0, 1, 2]"
  "objects empty_cluster r = (if r = 0 then deployment else if r = 1 then crd else service)"
  "arrays broken_cluster (resources (engine dc)) = [0, 1]"
  "objects broken_cluster r = (if r = 0 then deployment else malformed)"
  by (simp_all add: empty_cluster_def broken_cluster_def)

lemma example_fields [simp]:
  "GetName deployment = ''controller''" "GetName crd = ''routes''"
  "GetName service = ''activator''" "GetName malformed = ''broken''"
  by (simp_all add: deployment_def crd_def service_def malformed_def)

lemma example_scopes [simp]:
  "\<not> isClusterScoped (GetKind deployment)" "isClusterScoped (GetKind crd)"
  "\<not> isClusterScoped (GetKind service)"
  by code_simp+

lemma example_clients [simp]:
  "client deployment =
     Inr \<lparr>resource = GVR ''apps'' ''v1'' ''deployments'', namespace = ''kn''\<rparr>"
  "client crd =
     Inr \<lparr>resource = GVR ''apiextensions.k8s.io'' ''v1beta1'' ''customresourcedefinitions'',
          namespace = []\<rparr>"
  "client service = Inr \<lparr>resource = GVR [] ''v1'' ''services'', namespace = ''kn''\<rparr>"
  "client malformed = Inl (GroupVersionError ''a/b/c'')"
  by code_simp+

lemma example_gvk [simp]:
  "String (GroupVersionKind deployment) = ''apps/v1, Kind=Deployment''"
  "String (GroupVersionKind crd) =
     ''apiextensions.k8s.io/v1beta1, Kind=CustomResourceDefinition''"
  "String (GroupVersionKind service) = ''/v1, Kind=Service''"
  by code_simp+

lemma gvk_update_owner [simp]:
  "GroupVersionKind (x\<lparr>GetOwnerReferences := refs\<rparr>) = GroupVersionKind x"
  by (simp add: GroupVersionKind_def split: sum.splits)

lemmas engine_defs =
  Apply_def Apply_body_def Delete_eq Delete_body_eq c_Get_def c_Create_def c_Delete_def
  log_Info_def SetOwnerReferences_def ResourceNames_def issued_def
  store_def store_Get_def store_Create_def store_Delete_def refusing_def racing_def
  empty_cluster_def broken_cluster_def manifest_world_def broken_world_def engine_def

lemma resolvable_examples [simp]:
  "resolvable deployment" "resolvable crd" "resolvable service" "\<not> resolvable malformed"
  by (simp_all add: resolvable_def)

lemma Apply_store_example:
  "fst (Apply (engine store) install empty_cluster) = None"
  by (simp add: engine_defs)

lemma Delete_broken_example:
  "fst (Delete (engine store) broken_cluster) = Returns (Some (GroupVersionError ''a/b/c''))"
  by (simp add: engine_defs)

section \<open>Order of the remote requests\<close>

text \<open>
  C2. Whatever the remote API answers, the requests that \<open>Apply\<close> issues are, for the
  stored resources in file order, the existence check of a resource followed or not by
  its create, for the resources up to the one where it stops (all of them when it returns
  no error, and then the endpoint of each resolves, so that each has its existence
  check); and the requests that \<open>Delete\<close> issues are the delete requests of the stored
  resources in reverse file order, up to the first resource whose endpoint cannot be
  resolved (all of them when every endpoint resolves). For the manifest [A, B, C] these
  are the requests of A, then of B, then of C, and the deletes of C, B, A.
\<close>

theorem Apply_Delete_order:
  "(\<exists>bs. length bs \<le> length (arrays w (resources f))
      \<and> (fst (Apply f owner w) = None \<longrightarrow> length bs = length (arrays w (resources f)))
      \<and> issued w (snd (Apply f owner w)) =
          concat (map2 (\<lambda>r b. requests owner (objects w r) b) (arrays w (resources f)) bs))
   \<and> (fst (Apply f owner w) = None \<longrightarrow>
        (\<forall>r \<in> set (arrays w (resources f)). resolvable (objects w r)))
   \<and> issued w (snd (Delete f w)) =
       concat (map (\<lambda>r. delete_requests (objects w r))
         (takeWhile (\<lambda>r. resolvable (objects w r)) (rev (arrays w (resources f)))))
   \<and> ((\<forall>r \<in> set (arrays w (resources f)). resolvable (objects w r)) \<longrightarrow>
       issued w (snd (Delete f w)) =
         concat (map (\<lambda>r. delete_requests (objects w r)) (rev (arrays w (resources f)))))"
proof -
  have "(\<forall>r \<in> set (arrays w (resources f)). resolvable (objects w r)) \<longrightarrow>
       issued w (snd (Delete f w)) =
         concat (map (\<lambda>r. delete_requests (objects w r)) (rev (arrays w (resources f))))"
  proof
    assume "\<forall>r \<in> set (arrays w (resources f)). resolvable (objects w r)"
    then have tw: "takeWhile (\<lambda>r. resolvable (objects w r)) (rev (arrays w (resources f)))
      = rev (arrays w (resources f))"
      by (intro takeWhile_all) simp
    show "issued w (snd (Delete f w)) =
         concat (map (\<lambda>r. delete_requests (objects w r)) (rev (arrays w (resources f))))"
      by (simp only: Delete_issued tw)
  qed
  with Apply_issued [of w f owner] Delete_issued [of w f] Apply_None_resolvable [of f owner w]
  show ?thesis by blast
qed

theorem Apply_Delete_order_witness:
  "arrays empty_cluster (resources (engine store)) = [0, 1, 2]
   \<and> resolvable deployment \<and> resolvable crd \<and> resolvable service
   \<and> fst (Apply (engine store) install empty_cluster) = None
   \<and> (\<exists>bs. length bs = length (arrays empty_cluster (resources (engine store)))
        \<and> issued empty_cluster
            (snd (Apply (engine store) install empty_cluster)) =
          concat (map2 (\<lambda>r b. requests install (objects empty_cluster r) b)
                    (arrays empty_cluster (resources (engine store))) bs))
   \<and> issued empty_cluster (snd (Delete (engine store) empty_cluster)) =
       concat (map (\<lambda>r. delete_requests (objects empty_cluster r))
         (rev (arrays empty_cluster (resources (engine store)))))"
proof -
  let ?W = "empty_cluster"
  have h: "\<forall>r \<in> set (arrays ?W (resources (engine store))). resolvable (objects ?W r)"
    by simp
  have a: "fst (Apply (engine store) install ?W) = None"
    by (rule Apply_store_example)
  note t = Apply_Delete_order [of ?W "engine store" install]
  from t a have 1: "\<exists>bs. length bs = length (arrays ?W (resources (engine store)))
        \<and> issued ?W (snd (Apply (engine store) install ?W)) =
          concat (map2 (\<lambda>r b. requests install (objects ?W r) b)
                    (arrays ?W (resources (engine store))) bs)"
    by blast
  from t h have 2: "issued ?W (snd (Delete (engine store) ?W)) =
       concat (map (\<lambda>r. delete_requests (objects ?W r)) (rev (arrays ?W (resources (engine store)))))"
    by blast
  have 3: "arrays ?W (resources (engine store)) = [0, 1, 2]"
    "resolvable deployment" "resolvable crd" "resolvable service"
    by simp_all
  from 1 2 3 a show ?thesis by blast
qed

section \<open>Delete ignores the answers to its requests\<close>

text \<open>
  C5. For every remote API, whatever it answers to a delete request: \<open>Delete\<close> returns
  (it does not panic); it issues the delete requests of the stored resources in reverse
  file order and stops only at a resource whose endpoint does not resolve; when the
  endpoint of every stored resource resolves, it issues the delete request of every
  resource and returns no error; and when it returns an error, that error is the error
  of parsing the apiVersion of a stored resource into group and version.
\<close>

theorem Delete_swallows_remote_errors:
  "(\<exists>e. fst (Delete f w) = Returns e)
   \<and> issued w (snd (Delete f w)) =
       concat (map (\<lambda>r. delete_requests (objects w r))
         (takeWhile (\<lambda>r. resolvable (objects w r)) (rev (arrays w (resources f)))))
   \<and> ((\<forall>r \<in> set (arrays w (resources f)). resolvable (objects w r)) \<longrightarrow>
        fst (Delete f w) = Returns None
        \<and> issued w (snd (Delete f w)) =
            concat (map (\<lambda>r. delete_requests (objects w r)) (rev (arrays w (resources f)))))
   \<and> (fst (Delete f w) = Returns (Some err) \<longrightarrow>
        (\<exists>r \<in> set (arrays w (resources f)).
           ParseGroupVersion (GetAPIVersion (objects w r)) = Inl err)
        \<and> (\<exists>r \<in> set (arrays w (resources f)). \<not> resolvable (objects w r)))"
proof -
  let ?rs = "rev (arrays w (resources f))"
  let ?P = "\<lambda>r. resolvable (objects w r)"
  have 1: "\<exists>e. fst (Delete f w) = Returns e"
    using Delete_error [of f w] by blast
  have 2: "fst (Delete f w) = Returns None
        \<and> issued w (snd (Delete f w)) = concat (map (\<lambda>r. delete_requests (objects w r)) ?rs)"
    if "\<forall>r \<in> set (arrays w (resources f)). resolvable (objects w r)"
  proof -
    from that have "\<forall>r \<in> set ?rs. ?P r" by simp
    then have tw: "takeWhile ?P ?rs = ?rs" and dw: "dropWhile ?P ?rs = []"
      by (rule takeWhile_all, rule dropWhile_all)
    have "fst (Delete f w) = Returns None"
      by (simp only: Delete_error dw list.case)
    moreover have "issued w (snd (Delete f w)) = concat (map (\<lambda>r. delete_requests (objects w r)) ?rs)"
      by (simp only: Delete_issued tw)
    ultimately show ?thesis by blast
  qed
  have 3: "(\<exists>r \<in> set (arrays w (resources f)).
           ParseGroupVersion (GetAPIVersion (objects w r)) = Inl err)
        \<and> (\<exists>r \<in> set (arrays w (resources f)). \<not> resolvable (objects w r))"
    if "fst (Delete f w) = Returns (Some err)"
  proof -
    from that Delete_error [of f w] obtain r rest where
      d: "dropWhile ?P ?rs = r # rest" and c: "client (objects w r) = Inl err"
      by (auto split: list.splits sum.splits)
    from d have "r \<in> set ?rs"
      by (metis list.set_intros(1) set_dropWhileD)
    then have r: "r \<in> set (arrays w (resources f))" by simp
    from c have "ParseGroupVersion (GetAPIVersion (objects w r)) = Inl err"
      by (auto simp: client_def Let_def split: sum.splits if_splits)
    moreover from c have "\<not> resolvable (objects w r)"
      by (simp add: resolvable_def)
    ultimately show ?thesis using r by blast
  qed
  from 1 2 3 Delete_issued [of w f] show ?thesis by blast
qed

theorem Delete_swallows_remote_errors_witness:
  "arrays empty_cluster (resources (engine store)) = [0, 1, 2]
   \<and> resolvable deployment \<and> resolvable crd \<and> resolvable service
   \<and> fst (do_Delete store
          \<lparr>resource = GVR [] ''v1'' ''services'', namespace = ''kn''\<rparr> ''activator''
          (remote empty_cluster)) = Some (NotFound ''activator'')
   \<and> fst (Delete (engine store) empty_cluster) = Returns None
   \<and> issued empty_cluster (snd (Delete (engine store) empty_cluster)) =
       concat (map (\<lambda>r. delete_requests (objects empty_cluster r))
         (rev (arrays empty_cluster (resources (engine store)))))
   \<and> fst (Delete (engine store) broken_cluster)
       = Returns (Some (GroupVersionError ''a/b/c''))
   \<and> issued broken_cluster (snd (Delete (engine store) broken_cluster)) = []
   \<and> (\<exists>r \<in> set (arrays broken_cluster (resources (engine store))).
         ParseGroupVersion (GetAPIVersion (objects broken_cluster r))
           = Inl (GroupVersionError ''a/b/c''))"
proof -
  let ?W = "empty_cluster"
  let ?B = "broken_cluster"
  have h: "\<forall>r \<in> set (arrays ?W (resources (engine store))). resolvable (objects ?W r)"
    by simp
  have b: "fst (Delete (engine store) ?B) = Returns (Some (GroupVersionError ''a/b/c''))"
    by (rule Delete_broken_example)
  from Delete_swallows_remote_errors [of "engine store" ?W] h
  have 1: "fst (Delete (engine store) ?W) = Returns None
    \<and> issued ?W (snd (Delete (engine store) ?W)) =
       concat (map (\<lambda>r. delete_requests (objects ?W r)) (rev (arrays ?W (resources (engine store)))))"
    by blast
  from Delete_swallows_remote_errors [of "engine store" ?B "GroupVersionError ''a/b/c''"] b
  have 2: "\<exists>r \<in> set (arrays ?B (resources (engine store))).
         ParseGroupVersion (GetAPIVersion (objects ?B r)) = Inl (GroupVersionError ''a/b/c'')"
    by blast
  have 3: "arrays ?W (resources (engine store)) = [0, 1, 2]"
    "resolvable deployment" "resolvable crd" "resolvable service"
    by simp_all
  have 4: "fst (do_Delete store
          \<lparr>resource = GVR [] ''v1'' ''services'', namespace = ''kn''\<rparr> ''activator''
          (remote empty_cluster)) = Some (NotFound ''activator'')"
    by (simp add: engine_defs)
  have 5: "issued broken_cluster (snd (Delete (engine store) broken_cluster)) = []"
    by (simp add: engine_defs)
  from 1 2 3 4 5 b show ?thesis by blast
qed

section \<open>The owner reference\<close>

lemma create_in_requests:
  "CreateCall c obj \<in> set (requests owner x b) \<Longrightarrow>
   client x = Inr c \<and> obj = with_owner owner x"
  by (auto simp: requests_def split: sum.splits if_splits)

lemma create_in_issued:
  assumes "CreateCall c obj \<in> set (issued w (snd (Apply f owner w)))"
  shows "\<exists>r \<in> set (arrays w (resources f)).
           client (objects w r) = Inr c \<and> obj = with_owner owner (objects w r)"
proof -
  from Apply_issued [of w f owner] obtain bs where
    "issued w (snd (Apply f owner w)) =
       concat (map2 (\<lambda>r b. requests owner (objects w r) b) (arrays w (resources f)) bs)"
    by blast
  with assms obtain r b where "(r, b) \<in> set (zip (arrays w (resources f)) bs)"
    "CreateCall c obj \<in> set (requests owner (objects w r) b)"
    by auto
  then show ?thesis
    using create_in_requests set_zip_leftD by fast
qed

lemma created_example:
  "CreateCall \<lparr>resource = GVR ''apps'' ''v1'' ''deployments'', namespace = ''kn''\<rparr>
      (deployment\<lparr>GetOwnerReferences := [install]\<rparr>)
    \<in> set (issued empty_cluster (snd (Apply (engine store) install empty_cluster)))"
  "CreateCall \<lparr>resource = GVR ''apiextensions.k8s.io'' ''v1beta1'' ''customresourcedefinitions'',
       namespace = []\<rparr> crd
    \<in> set (issued empty_cluster (snd (Apply (engine store) install empty_cluster)))"
  by (simp_all add: engine_defs)

text \<open>
  C4. Every object that \<open>Apply\<close> sends in a create request is a stored resource of the
  manifest, sent to that resource's endpoint, and it is the resource as stored when the
  lower-cased kind is one of namespace, clusterrole, clusterrolebinding and
  customresourcedefinition, and the resource with its owner references set to the one
  owner supplied by the caller otherwise.
\<close>

theorem owner_reference_policy:
  assumes "CreateCall c obj \<in> set (issued w (snd (Apply f owner w)))"
  shows "\<exists>r \<in> set (arrays w (resources f)).
           client (objects w r) = Inr c
           \<and> obj = (if ToLower (GetKind (objects w r)) \<in>
                        {''namespace'', ''clusterrole'', ''clusterrolebinding'',
                         ''customresourcedefinition''}
                    then objects w r
                    else (objects w r)\<lparr>GetOwnerReferences := [owner]\<rparr>)"
proof -
  from create_in_issued [OF assms] obtain r where r: "r \<in> set (arrays w (resources f))"
    "client (objects w r) = Inr c" "obj = with_owner owner (objects w r)"
    by blast
  have "with_owner owner (objects w r) =
      (if ToLower (GetKind (objects w r)) \<in>
            {''namespace'', ''clusterrole'', ''clusterrolebinding'', ''customresourcedefinition''}
       then objects w r
       else (objects w r)\<lparr>GetOwnerReferences := [owner]\<rparr>)"
    by (simp add: with_owner_def isClusterScoped_def Let_def)
  with r show ?thesis by auto
qed

theorem owner_reference_policy_witness:
  "CreateCall \<lparr>resource = GVR ''apps'' ''v1'' ''deployments'', namespace = ''kn''\<rparr>
      (deployment\<lparr>GetOwnerReferences := [install]\<rparr>)
    \<in> set (issued empty_cluster (snd (Apply (engine store) install empty_cluster)))
   \<and> (\<exists>r \<in> set (arrays empty_cluster (resources (engine store))).
         client (objects empty_cluster r)
           = Inr \<lparr>resource = GVR ''apps'' ''v1'' ''deployments'', namespace = ''kn''\<rparr>
         \<and> deployment\<lparr>GetOwnerReferences := [install]\<rparr>
           = (if ToLower (GetKind (objects empty_cluster r)) \<in>
                   {''namespace'', ''clusterrole'', ''clusterrolebinding'',
                    ''customresourcedefinition''}
              then objects empty_cluster r
              else (objects empty_cluster r)\<lparr>GetOwnerReferences := [install]\<rparr>))
   \<and> CreateCall \<lparr>resource = GVR ''apiextensions.k8s.io'' ''v1beta1'' ''customresourcedefinitions'',
         namespace = []\<rparr> crd
    \<in> set (issued empty_cluster (snd (Apply (engine store) install empty_cluster)))"
  using owner_reference_policy [OF created_example(1)] created_example by blast

section \<open>What the engine leaves unchanged\<close>

text \<open>
  The constructor gives an engine whose slice is allocated and holds, in order, new
  objects with the contents that \<open>parse\<close> returned.
\<close>

lemma NewYamlFile_stores_parse:
  assumes "parse fs dec path = Returns (result, lg)"
  shows "\<exists>f w'. NewYamlFile fs dec path dc w = Returns (f, w')
    \<and> dynamicClient f = dc
    \<and> resources f < next_array w'
    \<and> distinct (arrays w' (resources f))
    \<and> map (objects w') (arrays w' (resources f)) = result
    \<and> remote w' = remote w \<and> calls w' = calls w"
proof -
  have "map (\<lambda>r. if next_object w \<le> r \<and> r < next_object w + length result
                  then result ! (r - next_object w) else objects w r)
          [next_object w ..< next_object w + length result] = result"
    by (rule nth_equalityI) auto
  with assms show ?thesis
    by (simp add: NewYamlFile_def Let_def)
qed

lemma NewYamlFile_panics:
  "fs path = None \<Longrightarrow> NewYamlFile fs dec path dc w = Panics ''open failed''"
  by (simp add: NewYamlFile_def parse_def read_def)

lemma owned_fields:
  assumes "owned owner w w'"
  shows "GetAPIVersion (objects w' r) = GetAPIVersion (objects w r)"
    "GetKind (objects w' r) = GetKind (objects w r)"
    "GetNamespace (objects w' r) = GetNamespace (objects w r)"
    "GetName (objects w' r) = GetName (objects w r)"
    "payload (objects w' r) = payload (objects w r)"
  using assms unfolding owned_def by (metis with_owner_simps)+

lemma run_frame:
  "resources f < next_array w \<Longrightarrow>
   next_array w \<le> next_array (run f ops w)
   \<and> (\<forall>a < next_array w. arrays (run f ops w) a = arrays w a)
   \<and> (\<forall>r. GetAPIVersion (objects (run f ops w) r) = GetAPIVersion (objects w r)
         \<and> GetKind (objects (run f ops w) r) = GetKind (objects w r)
         \<and> GetNamespace (objects (run f ops w) r) = GetNamespace (objects w r)
         \<and> GetName (objects (run f ops w) r) = GetName (objects w r)
         \<and> payload (objects (run f ops w) r) = payload (objects w r))"
proof (induction ops arbitrary: w)
  case Nil
  then show ?case by simp
next
  case (Cons x ops)
  show ?case
  proof (cases x)
    case (ApplyOp owner)
    let ?w1 = "snd (Apply f owner w)"
    have "resources f < next_array ?w1"
      using Cons.prems by (simp add: Apply_frame)
    from Cons.IH [OF this] owned_fields [OF Apply_frame(4) [of owner w f]] ApplyOp
    show ?thesis by (simp add: Apply_frame)
  next
    case DeleteOp
    let ?w1 = "snd (Delete f w)"
    have "resources f < next_array ?w1"
      using Cons.prems by (simp add: Delete_frame)
    from Cons.IH [OF this] DeleteOp
    show ?thesis by (simp add: Delete_frame)
  qed
qed

lemma allocated_example: "resources (engine dc) < next_array empty_cluster"
  by (simp add: empty_cluster_def manifest_world_def engine_def)

lemma names_example:
  "ResourceNames (engine store) empty_cluster =
     [''controller (apps/v1, Kind=Deployment)'',
      ''routes (apiextensions.k8s.io/v1beta1, Kind=CustomResourceDefinition)'',
      ''activator (/v1, Kind=Service)'']"
  by (simp add: engine_defs)

text \<open>
  C10. \<open>Delete\<close> reverses a new array, not the engine's: after \<open>Delete\<close> on an engine
  whose slice is allocated, the engine's slice holds the same elements in the same
  order, the new array holds them reversed, no object has changed, \<open>ResourceNames\<close>
  gives the same list, and a following \<open>Apply\<close> issues the requests of the resources in
  the original file order.
\<close>

theorem Delete_keeps_stored_list:
  assumes "resources f < next_array w"
  shows "arrays (snd (Delete f w)) (resources f) = arrays w (resources f)
    \<and> arrays (snd (Delete f w)) (next_array w) = rev (arrays w (resources f))
    \<and> objects (snd (Delete f w)) = objects w
    \<and> ResourceNames f (snd (Delete f w)) = ResourceNames f w
    \<and> (\<exists>bs. length bs \<le> length (arrays w (resources f))
          \<and> issued (snd (Delete f w)) (snd (Apply f owner (snd (Delete f w)))) =
              concat (map2 (\<lambda>r b. requests owner (objects w r) b) (arrays w (resources f)) bs))"
proof -
  let ?w' = "snd (Delete f w)"
  have a: "arrays ?w' (resources f) = arrays w (resources f)"
    using assms by (simp add: Delete_frame)
  have n: "arrays ?w' (next_array w) = rev (arrays w (resources f))"
    by (simp add: Delete_frame)
  have o: "objects ?w' = objects w"
    by (simp add: Delete_frame)
  have rn: "ResourceNames f ?w' = ResourceNames f w"
    by (simp only: ResourceNames_def a o)
  from Apply_issued [of ?w' f owner] a o
  have "\<exists>bs. length bs \<le> length (arrays w (resources f))
          \<and> issued ?w' (snd (Apply f owner ?w')) =
              concat (map2 (\<lambda>r b. requests owner (objects w r) b) (arrays w (resources f)) bs)"
    by auto
  with a n o rn show ?thesis by blast
qed

theorem Delete_keeps_stored_list_witness:
  "resources (engine store) < next_array empty_cluster
   \<and> arrays (snd (Delete (engine store) empty_cluster)) (resources (engine store))
       = arrays empty_cluster (resources (engine store))
   \<and> arrays empty_cluster (resources (engine store)) = [0, 1, 2]
   \<and> arrays (snd (Delete (engine store) empty_cluster)) (next_array empty_cluster)
       = rev (arrays empty_cluster (resources (engine store)))
   \<and> ResourceNames (engine store) (snd (Delete (engine store) empty_cluster))
       = ResourceNames (engine store) empty_cluster
   \<and> ResourceNames (engine store) empty_cluster =
     [''controller (apps/v1, Kind=Deployment)'',
      ''routes (apiextensions.k8s.io/v1beta1, Kind=CustomResourceDefinition)'',
      ''activator (/v1, Kind=Service)'']"
proof -
  have h: "resources (engine store) < next_array empty_cluster"
    by (rule allocated_example)
  have a: "arrays empty_cluster (resources (engine store)) = [0, 1, 2]"
    by simp
  from Delete_keeps_stored_list [OF h] h a names_example
  show ?thesis by blast
qed

section \<open>A failing create\<close>

lemma Apply_body_found:
  assumes "client (objects w r) = Inr c"
    and "do_Get dc c (GetName (objects w r)) (remote w) = (Inr found, s1)"
  shows "Apply_body dc owner r w =
     (None, w\<lparr>remote := s1, calls := calls w @ [GetCall c (GetName (objects w r))]\<rparr>)"
  using assms by (simp add: Apply_body_def c_Get_def)

lemma Apply_body_get_fails:
  assumes "client (objects w r) = Inr c"
    and "do_Get dc c (GetName (objects w r)) (remote w) = (Inl err, s1)"
    and "\<not> IsNotFound err"
  shows "Apply_body dc owner r w =
     (Some err, w\<lparr>remote := s1, calls := calls w @ [GetCall c (GetName (objects w r))]\<rparr>)"
  using assms by (simp add: Apply_body_def c_Get_def)

lemma Apply_body_create_fails:
  assumes "client (objects w r) = Inr c"
    and "do_Get dc c (GetName (objects w r)) (remote w) = (Inl e0, s1)"
    and "IsNotFound e0"
    and "do_Create dc c (with_owner owner (objects w r)) s1 = (Inl err, s2)"
  shows "Apply_body dc owner r w =
     (if IsAlreadyExists err then None else Some err,
      w\<lparr>objects := (objects w)(r := with_owner owner (objects w r)),
        remote := s2,
        calls := calls w @ [GetCall c (GetName (objects w r)),
                            CreateCall c (with_owner owner (objects w r))]\<rparr>)"
  using assms
  by (cases "isClusterScoped (GetKind (objects w r))")
    (simp_all add: Apply_body_def c_Get_def c_Create_def SetOwnerReferences_def with_owner_def
      Let_def)

lemma Apply_body_created:
  assumes "client (objects w r) = Inr c"
    and "do_Get dc c (GetName (objects w r)) (remote w) = (Inl e0, s1)"
    and "IsNotFound e0"
    and "do_Create dc c (with_owner owner (objects w r)) s1 = (Inr made, s2)"
  shows "Apply_body dc owner r w =
     (None,
      w\<lparr>objects := (objects w)(r := with_owner owner (objects w r)),
        remote := s2,
        calls := calls w @ [GetCall c (GetName (objects w r)),
                            CreateCall c (with_owner owner (objects w r))],
        logs := logs w @ [LogInfo ''Created resource''
           [(''type'', String (GroupVersionKind (objects w r))),
            (''name'', GetName (objects w r))]]\<rparr>)"
  using assms
  by (cases "isClusterScoped (GetKind (objects w r))")
    (simp_all add: Apply_body_def c_Get_def c_Create_def SetOwnerReferences_def with_owner_def
      log_Info_def GroupVersionKind_def Let_def split: sum.splits)

lemma not_delete_requests: "\<not> list_ex is_delete (requests owner x b)"
  by (simp add: requests_def split: sum.splits)

lemma not_delete_concat:
  "\<not> list_ex is_delete (concat (map2 (\<lambda>r b. requests owner (f r) b) rs bs))"
proof (induction rs arbitrary: bs)
  case Nil
  show ?case by simp
next
  case (Cons r rs)
  show ?case
  proof (cases bs)
    case Nil
    then show ?thesis by simp
  next
    case (Cons b bs')
    with Cons.IH [of bs'] not_delete_requests [of owner "f r" b] show ?thesis
      by (auto simp: list_ex_iff)
  qed
qed

lemma Apply_at:
  assumes "arrays w (resources f) = pre @ r # post"
    and "Apply_loop (dynamicClient f) owner pre w = (None, w1)"
  shows "Apply f owner w =
     (case Apply_body (dynamicClient f) owner r w1 of
        (Some err, w2) \<Rightarrow> (Some err, w2)
      | (None, w2) \<Rightarrow> Apply_loop (dynamicClient f) owner post w2)"
  using assms by (simp add: Apply_def Apply_loop_append)

lemma Apply_loop_issued_all:
  assumes "Apply_loop dc owner rs w = (None, w1)"
  shows "\<exists>bs. length bs = length rs
    \<and> calls w1 = calls w @ concat (map2 (\<lambda>r b. requests owner (objects w r) b) rs bs)"
  using Apply_loop_calls [OF assms] by auto

lemma engine_client [simp]: "dynamicClient (engine dc) = dc"
  by (simp add: engine_def)

lemma refusing_example:
  "fst (Apply_loop (refusing ''routes'') install [0] empty_cluster) = None"
  "client (objects (snd (Apply_loop (refusing ''routes'') install [0] empty_cluster)) 1)
     = Inr \<lparr>resource = GVR ''apiextensions.k8s.io'' ''v1beta1'' ''customresourcedefinitions'',
            namespace = []\<rparr>"
  "fst (do_Get (refusing ''routes'')
        \<lparr>resource = GVR ''apiextensions.k8s.io'' ''v1beta1'' ''customresourcedefinitions'',
           namespace = []\<rparr>
        (GetName (objects (snd (Apply_loop (refusing ''routes'') install [0] empty_cluster)) 1))
        (remote (snd (Apply_loop (refusing ''routes'') install [0] empty_cluster))))
     = Inl (NotFound ''routes'')"
  "fst (do_Create (refusing ''routes'')
        \<lparr>resource = GVR ''apiextensions.k8s.io'' ''v1beta1'' ''customresourcedefinitions'',
           namespace = []\<rparr>
        (with_owner install
           (objects (snd (Apply_loop (refusing ''routes'') install [0] empty_cluster)) 1))
        (snd (do_Get (refusing ''routes'')
           \<lparr>resource = GVR ''apiextensions.k8s.io'' ''v1beta1'' ''customresourcedefinitions'',
              namespace = []\<rparr>
           (GetName (objects (snd (Apply_loop (refusing ''routes'') install [0] empty_cluster)) 1))
           (remote (snd (Apply_loop (refusing ''routes'') install [0] empty_cluster))))))
     = Inl (OtherError ''refused'')"
  by (simp_all add: engine_defs)

lemma refusing_issued:
  "issued empty_cluster (snd (Apply (engine (refusing ''routes'')) install empty_cluster)) =
     [GetCall \<lparr>resource = GVR ''apps'' ''v1'' ''deployments'', namespace = ''kn''\<rparr> ''controller'',
      CreateCall \<lparr>resource = GVR ''apps'' ''v1'' ''deployments'', namespace = ''kn''\<rparr>
        (deployment\<lparr>GetOwnerReferences := [install]\<rparr>),
      GetCall \<lparr>resource = GVR ''apiextensions.k8s.io'' ''v1beta1'' ''customresourcedefinitions'',
        namespace = []\<rparr> ''routes'',
      CreateCall \<lparr>resource = GVR ''apiextensions.k8s.io'' ''v1beta1'' ''customresourcedefinitions'',
        namespace = []\<rparr> crd]"
  by (simp add: engine_defs)

lemma racing_example:
  "fst (Apply (engine racing) install empty_cluster) = None"
  by (simp add: engine_defs)

text \<open>
  C3. Let the stored resources be \<open>pre\<close>, then \<open>r\<close>, then \<open>post\<close>; let the loop of \<open>Apply\<close>
  have passed \<open>pre\<close> without returning, the existence check of \<open>r\<close> have answered
  not-found and the create of \<open>r\<close> have failed with \<open>err\<close>. If \<open>err\<close> is not
  already-exists, \<open>Apply\<close> returns \<open>err\<close>; the requests it has issued are those of the
  resources of \<open>pre\<close>, then the existence check and the create of \<open>r\<close>, and nothing for
  \<open>post\<close>; none of them is a delete, and the remote state is the one the failed create
  left. If \<open>err\<close> is already-exists, \<open>Apply\<close> goes on with \<open>post\<close>.
\<close>

theorem create_failure_aborts:
  assumes "arrays w (resources f) = pre @ r # post"
    and "Apply_loop (dynamicClient f) owner pre w = (None, w1)"
    and "client (objects w1 r) = Inr c"
    and "do_Get (dynamicClient f) c (GetName (objects w1 r)) (remote w1) = (Inl e0, s2)"
    and "IsNotFound e0"
    and "do_Create (dynamicClient f) c (with_owner owner (objects w1 r)) s2 = (Inl err, s3)"
  shows "(\<not> IsAlreadyExists err \<longrightarrow>
            fst (Apply f owner w) = Some err
          \<and> remote (snd (Apply f owner w)) = s3
          \<and> (\<exists>bs. length bs = length pre
               \<and> issued w (snd (Apply f owner w)) =
                   concat (map2 (\<lambda>r b. requests owner (objects w r) b) pre bs)
                   @ [GetCall c (GetName (objects w1 r)),
                      CreateCall c (with_owner owner (objects w1 r))])
          \<and> \<not> list_ex is_delete (issued w (snd (Apply f owner w))))
       \<and> (IsAlreadyExists err \<longrightarrow>
            Apply f owner w =
              Apply_loop (dynamicClient f) owner post
                (w1\<lparr>objects := (objects w1)(r := with_owner owner (objects w1 r)),
                    remote := s3,
                    calls := calls w1 @ [GetCall c (GetName (objects w1 r)),
                                         CreateCall c (with_owner owner (objects w1 r))]\<rparr>))"
proof -
  let ?w3 = "w1\<lparr>objects := (objects w1)(r := with_owner owner (objects w1 r)),
                    remote := s3,
                    calls := calls w1 @ [GetCall c (GetName (objects w1 r)),
                                         CreateCall c (with_owner owner (objects w1 r))]\<rparr>"
  have body: "Apply_body (dynamicClient f) owner r w1 =
      (if IsAlreadyExists err then None else Some err, ?w3)"
    by (rule Apply_body_create_fails [OF assms(3-6)])
  from Apply_loop_issued_all [OF assms(2)] obtain bs where bs: "length bs = length pre"
    "calls w1 = calls w @ concat (map2 (\<lambda>r b. requests owner (objects w r) b) pre bs)"
    by blast
  have ae: "Apply f owner w = Apply_loop (dynamicClient f) owner post ?w3"
    if "IsAlreadyExists err"
    using that Apply_at [OF assms(1,2)] body by simp
  have fail: "fst (Apply f owner w) = Some err
          \<and> remote (snd (Apply f owner w)) = s3
          \<and> (\<exists>bs. length bs = length pre
               \<and> issued w (snd (Apply f owner w)) =
                   concat (map2 (\<lambda>r b. requests owner (objects w r) b) pre bs)
                   @ [GetCall c (GetName (objects w1 r)),
                      CreateCall c (with_owner owner (objects w1 r))])
          \<and> \<not> list_ex is_delete (issued w (snd (Apply f owner w)))"
    if "\<not> IsAlreadyExists err"
  proof -
    from that Apply_at [OF assms(1,2)] body have a: "Apply f owner w = (Some err, ?w3)"
      by simp
    have i: "issued w ?w3 = concat (map2 (\<lambda>r b. requests owner (objects w r) b) pre bs)
                   @ [GetCall c (GetName (objects w1 r)),
                      CreateCall c (with_owner owner (objects w1 r))]"
      using bs(2) by (simp add: issued_def)
    have "\<not> list_ex is_delete (issued w ?w3)"
      unfolding i using not_delete_concat [of owner "objects w" pre bs] by simp
    with a i bs(1) show ?thesis by auto
  qed
  from ae fail show ?thesis by blast
qed

theorem create_failure_aborts_witness:
  "arrays empty_cluster (resources (engine (refusing ''routes''))) = [0] @ 1 # [2]
   \<and> fst (Apply_loop (refusing ''routes'') install [0] empty_cluster) = None
   \<and> \<not> IsAlreadyExists (OtherError ''refused'')
   \<and> fst (Apply (engine (refusing ''routes'')) install empty_cluster) = Some (OtherError ''refused'')
   \<and> \<not> list_ex is_delete
         (issued empty_cluster (snd (Apply (engine (refusing ''routes'')) install empty_cluster)))
   \<and> issued empty_cluster (snd (Apply (engine (refusing ''routes'')) install empty_cluster)) =
     [GetCall \<lparr>resource = GVR ''apps'' ''v1'' ''deployments'', namespace = ''kn''\<rparr> ''controller'',
      CreateCall \<lparr>resource = GVR ''apps'' ''v1'' ''deployments'', namespace = ''kn''\<rparr>
        (deployment\<lparr>GetOwnerReferences := [install]\<rparr>),
      GetCall \<lparr>resource = GVR ''apiextensions.k8s.io'' ''v1beta1'' ''customresourcedefinitions'',
        namespace = []\<rparr> ''routes'',
      CreateCall \<lparr>resource = GVR ''apiextensions.k8s.io'' ''v1beta1'' ''customresourcedefinitions'',
        namespace = []\<rparr> crd]
   \<and> IsAlreadyExists (AlreadyExists ''controller'')
   \<and> Apply (engine racing) install empty_cluster =
       Apply_loop racing install [1, 2]
         (empty_cluster\<lparr>objects := (objects empty_cluster)(0 := with_owner install deployment),
            remote := remote empty_cluster,
            calls := calls empty_cluster @
              [GetCall \<lparr>resource = GVR ''apps'' ''v1'' ''deployments'', namespace = ''kn''\<rparr>
                 ''controller'',
               CreateCall \<lparr>resource = GVR ''apps'' ''v1'' ''deployments'', namespace = ''kn''\<rparr>
                 (with_owner install deployment)]\<rparr>)
   \<and> fst (Apply (engine racing) install empty_cluster) = None"
proof -
  let ?dc = "refusing ''routes''"
  let ?c = "\<lparr>resource = GVR ''apiextensions.k8s.io'' ''v1beta1'' ''customresourcedefinitions'',
             namespace = []\<rparr>"
  let ?w1 = "snd (Apply_loop ?dc install [0] empty_cluster)"
  let ?s2 = "snd (do_Get ?dc ?c (GetName (objects ?w1 1)) (remote ?w1))"
  let ?s3 = "snd (do_Create ?dc ?c (with_owner install (objects ?w1 1)) ?s2)"
  have h1: "arrays empty_cluster (resources (engine ?dc)) = [0] @ 1 # [2]"
    by simp
  have h2: "Apply_loop (dynamicClient (engine ?dc)) install [0] empty_cluster = (None, ?w1)"
    using refusing_example(1) by (simp add: prod_eq_iff)
  have h3: "client (objects ?w1 1) = Inr ?c"
    by (rule refusing_example(2))
  have h4: "do_Get (dynamicClient (engine ?dc)) ?c (GetName (objects ?w1 1)) (remote ?w1)
      = (Inl (NotFound ''routes''), ?s2)"
    using refusing_example(3) by (simp add: prod_eq_iff)
  have h5: "IsNotFound (NotFound ''routes'')"
    by simp
  have h6: "do_Create (dynamicClient (engine ?dc)) ?c (with_owner install (objects ?w1 1)) ?s2
      = (Inl (OtherError ''refused''), ?s3)"
    using refusing_example(4) by (simp add: prod_eq_iff)
  have n: "\<not> IsAlreadyExists (OtherError ''refused'')"
    by simp
  from create_failure_aborts [OF h1 h2 h3 h4 h5 h6] n
  have 1: "fst (Apply (engine ?dc) install empty_cluster) = Some (OtherError ''refused'')"
    and 2: "\<not> list_ex is_delete (issued empty_cluster (snd (Apply (engine ?dc) install empty_cluster)))"
    by blast+
  let ?cd = "\<lparr>resource = GVR ''apps'' ''v1'' ''deployments'', namespace = ''kn''\<rparr>"
  have r1: "arrays empty_cluster (resources (engine racing)) = [] @ 0 # [1, 2]"
    by simp
  have r2: "Apply_loop (dynamicClient (engine racing)) install [] empty_cluster = (None, empty_cluster)"
    by simp
  have r3: "client (objects empty_cluster 0) = Inr ?cd"
    by simp
  have r4: "do_Get (dynamicClient (engine racing)) ?cd (GetName (objects empty_cluster 0))
      (remote empty_cluster) = (Inl (NotFound ''controller''), remote empty_cluster)"
    by (simp add: racing_def deployment_def)
  have r5: "IsNotFound (NotFound ''controller'')"
    by simp
  have r6: "do_Create (dynamicClient (engine racing)) ?cd
      (with_owner install (objects empty_cluster 0)) (remote empty_cluster)
      = (Inl (AlreadyExists ''controller''), remote empty_cluster)"
    by (simp add: racing_def deployment_def)
  have y: "IsAlreadyExists (AlreadyExists ''controller'')"
    by simp
  from create_failure_aborts [OF r1 r2 r3 r4 r5 r6] y
  have 3: "Apply (engine racing) install empty_cluster =
       Apply_loop racing install [1, 2]
         (empty_cluster\<lparr>objects := (objects empty_cluster)(0 := with_owner install deployment),
            remote := remote empty_cluster,
            calls := calls empty_cluster @
              [GetCall ?cd ''controller'', CreateCall ?cd (with_owner install deployment)]\<rparr>)"
    by (simp add: deployment_def)
  from h1 refusing_example(1) n 1 2 refusing_issued y 3 racing_example
  show ?thesis by blast
qed

section \<open>Apply against the object store\<close>

lemma keys_with_owner [simp]: "keys (with_owner owner x) = keys x"
  by (simp add: keys_def split: sum.splits)

lemma owned_keys: "owned owner w w' \<Longrightarrow> keys (objects w' r) = keys (objects w r)"
  unfolding owned_def by (metis keys_with_owner)

lemma Apply_body_store:
  assumes "client (objects w r) = Inr c"
    and "Apply_body store owner r w = (e, w')"
  shows "e = None"
    and "(c, GetName (objects w r)) \<in> dom (remote w) \<Longrightarrow>
           remote w' = remote w \<and> calls w' = calls w @ [GetCall c (GetName (objects w r))]"
    and "(c, GetName (objects w r)) \<notin> dom (remote w) \<Longrightarrow>
           remote w' = (remote w)((c, GetName (objects w r)) \<mapsto> with_owner owner (objects w r))
           \<and> calls w' = calls w @ [GetCall c (GetName (objects w r)),
                                   CreateCall c (with_owner owner (objects w r))]"
proof -
  let ?nm = "GetName (objects w r)"
  show "e = None"
  proof (cases "remote w (c, ?nm)")
    case None
    then have g: "do_Get store c ?nm (remote w) = (Inl (NotFound ?nm), remote w)"
      by (simp add: store_def store_Get_def)
    from None have cr: "do_Create store c (with_owner owner (objects w r)) (remote w) =
        (Inr (with_owner owner (objects w r)),
         (remote w)((c, ?nm) \<mapsto> with_owner owner (objects w r)))"
      by (simp add: store_def store_Create_def)
    from Apply_body_created [OF assms(1) g _ cr] assms(2) show ?thesis by simp
  next
    case (Some obj)
    then have g: "do_Get store c ?nm (remote w) = (Inr obj, remote w)"
      by (simp add: store_def store_Get_def)
    from Apply_body_found [OF assms(1) g, of owner] assms(2) show ?thesis by simp
  qed
  show "remote w' = remote w \<and> calls w' = calls w @ [GetCall c ?nm]"
    if "(c, ?nm) \<in> dom (remote w)"
  proof -
    from that obtain obj where "remote w (c, ?nm) = Some obj" by auto
    then have g: "do_Get store c ?nm (remote w) = (Inr obj, remote w)"
      by (simp add: store_def store_Get_def)
    from Apply_body_found [OF assms(1) g, of owner] assms(2) show ?thesis by auto
  qed
  show "remote w' = (remote w)((c, ?nm) \<mapsto> with_owner owner (objects w r))
           \<and> calls w' = calls w @ [GetCall c ?nm, CreateCall c (with_owner owner (objects w r))]"
    if "(c, ?nm) \<notin> dom (remote w)"
  proof -
    from that have None: "remote w (c, ?nm) = None" by auto
    then have g: "do_Get store c ?nm (remote w) = (Inl (NotFound ?nm), remote w)"
      by (simp add: store_def store_Get_def)
    from None have cr: "do_Create store c (with_owner owner (objects w r)) (remote w) =
        (Inr (with_owner owner (objects w r)),
         (remote w)((c, ?nm) \<mapsto> with_owner owner (objects w r)))"
      by (simp add: store_def store_Create_def)
    from Apply_body_created [OF assms(1) g _ cr] assms(2) show ?thesis by auto
  qed
qed

lemma Apply_loop_store:
  "\<forall>r \<in> set rs. resolvable (objects w r) \<Longrightarrow> Apply_loop store owner rs w = (e, w') \<Longrightarrow>
   e = None
   \<and> (\<exists>cs. calls w' = calls w @ cs
         \<and> distinct (concat (map created cs))
         \<and> set (concat (map created cs)) =
             set (concat (map (\<lambda>r. keys (objects w r)) rs)) - dom (remote w))
   \<and> dom (remote w') = dom (remote w) \<union> set (concat (map (\<lambda>r. keys (objects w r)) rs))
   \<and> (set (concat (map (\<lambda>r. keys (objects w r)) rs)) \<subseteq> dom (remote w) \<longrightarrow> remote w' = remote w)"
proof (induction rs arbitrary: w)
  case Nil
  then show ?case by simp
next
  case (Cons r rs)
  from Cons.prems(1) obtain c where c: "client (objects w r) = Inr c"
    by (auto simp: resolvable_def split: sum.splits)
  let ?k = "(c, GetName (objects w r))"
  have k: "keys (objects w r) = [?k]"
    using c by (simp add: keys_def)
  obtain e1 w1 where b: "Apply_body store owner r w = (e1, w1)"
    by (cases "Apply_body store owner r w")
  note s = Apply_body_store [OF c b]
  note ow = Apply_body_owned [OF b]
  from s(1) b Cons.prems(2) have l: "Apply_loop store owner rs w1 = (e, w')" by simp
  have res: "\<forall>r \<in> set rs. resolvable (objects w1 r)"
    using Cons.prems(1) owned_resolvable [OF ow] by simp
  have K: "(\<lambda>r. keys (objects w1 r)) = (\<lambda>r. keys (objects w r))"
    using owned_keys [OF ow] by auto
  from Cons.IH [OF res l] obtain cs where ih: "e = None" "calls w' = calls w1 @ cs"
    "distinct (concat (map created cs))"
    "set (concat (map created cs)) = set (concat (map (\<lambda>r. keys (objects w r)) rs)) - dom (remote w1)"
    "dom (remote w') = dom (remote w1) \<union> set (concat (map (\<lambda>r. keys (objects w r)) rs))"
    "set (concat (map (\<lambda>r. keys (objects w r)) rs)) \<subseteq> dom (remote w1) \<longrightarrow> remote w' = remote w1"
    unfolding K by blast
  show ?case
  proof (cases "?k \<in> dom (remote w)")
    case True
    from s(2) [OF True] have r1: "remote w1 = remote w"
      and c1: "calls w1 = calls w @ [GetCall c (GetName (objects w r))]" by simp_all
    let ?cs = "GetCall c (GetName (objects w r)) # cs"
    have "calls w' = calls w @ ?cs" using ih(2) c1 by simp
    moreover have "distinct (concat (map created ?cs))" using ih(3) by simp
    moreover have "set (concat (map created ?cs)) =
        set (concat (map (\<lambda>r. keys (objects w r)) (r # rs))) - dom (remote w)"
      using ih(4) r1 k True by auto
    moreover have "dom (remote w') = dom (remote w) \<union> set (concat (map (\<lambda>r. keys (objects w r)) (r # rs)))"
      using ih(5) r1 k True by auto
    moreover have "set (concat (map (\<lambda>r. keys (objects w r)) (r # rs))) \<subseteq> dom (remote w) \<longrightarrow> remote w' = remote w"
      using ih(6) r1 by simp
    ultimately show ?thesis using ih(1) by blast
  next
    case False
    from s(3) [OF False] have r1: "remote w1 = (remote w)(?k \<mapsto> with_owner owner (objects w r))"
      and c1: "calls w1 = calls w @ [GetCall c (GetName (objects w r)),
                                   CreateCall c (with_owner owner (objects w r))]" by simp_all
    let ?cs = "GetCall c (GetName (objects w r)) # CreateCall c (with_owner owner (objects w r)) # cs"
    have d1: "dom (remote w1) = insert ?k (dom (remote w))" using r1 by simp
    have "calls w' = calls w @ ?cs" using ih(2) c1 by simp
    moreover have "distinct (concat (map created ?cs))" using ih(3,4) d1 by simp
    moreover have "set (concat (map created ?cs)) =
        set (concat (map (\<lambda>r. keys (objects w r)) (r # rs))) - dom (remote w)"
      using ih(4) d1 k False by auto
    moreover have "dom (remote w') = dom (remote w) \<union> set (concat (map (\<lambda>r. keys (objects w r)) (r # rs)))"
      using ih(5) d1 k by auto
    moreover have "set (concat (map (\<lambda>r. keys (objects w r)) (r # rs))) \<subseteq> dom (remote w) \<longrightarrow> remote w' = remote w"
      using k False by simp
    ultimately show ?thesis using ih(1) by blast
  qed
qed

lemma store_Get_snd: "snd (do_Get store c nm s) = s"
  by (simp add: store_def store_Get_def split: option.splits)

lemma idempotent_example:
  "fst (do_Get store \<lparr>resource = GVR ''apps'' ''v1'' ''deployments'', namespace = ''kn''\<rparr>
      (GetName (objects (snd (Apply (engine store) install empty_cluster)) 0))
      (remote (snd (Apply (engine store) install empty_cluster))))
    = Inr (deployment\<lparr>GetOwnerReferences := [install]\<rparr>)"
  "client (objects (snd (Apply (engine store) install empty_cluster)) 0)
    = Inr \<lparr>resource = GVR ''apps'' ''v1'' ''deployments'', namespace = ''kn''\<rparr>"
  "concat (map created (issued empty_cluster (snd (Apply (engine store) install empty_cluster)))) =
    [(\<lparr>resource = GVR ''apps'' ''v1'' ''deployments'', namespace = ''kn''\<rparr>, ''controller''),
     (\<lparr>resource = GVR ''apiextensions.k8s.io'' ''v1beta1'' ''customresourcedefinitions'',
        namespace = []\<rparr>, ''routes''),
     (\<lparr>resource = GVR [] ''v1'' ''services'', namespace = ''kn''\<rparr>, ''activator'')]"
  by (simp_all add: engine_defs)

text \<open>
  C1, as the code has it. Against the object store, starting from the empty store, with
  a manifest in which the apiVersion of every resource parses into group and version:
  neither of two \<open>Apply\<close> calls in a row returns an error; the first call creates every
  key (collection and name) of the manifest, each once; the second call creates nothing
  and leaves the store as the first call left it. And for every remote API, an iteration
  of \<open>Apply\<close> on a resource whose existence check succeeds issues that check, nothing
  else, and continues.
\<close>

theorem Apply_idempotent:
  assumes "dynamicClient f = store"
    and "remote w = Map.empty"
    and "\<forall>r \<in> set (arrays w (resources f)). resolvable (objects w r)"
  shows "fst (Apply f owner w) = None
    \<and> fst (Apply f owner (snd (Apply f owner w))) = None
    \<and> distinct (concat (map created (issued w (snd (Apply f owner w)))))
    \<and> set (concat (map created (issued w (snd (Apply f owner w))))) =
        set (concat (map (\<lambda>r. keys (objects w r)) (arrays w (resources f))))
    \<and> dom (remote (snd (Apply f owner w))) =
        set (concat (map (\<lambda>r. keys (objects w r)) (arrays w (resources f))))
    \<and> concat (map created
         (issued (snd (Apply f owner w)) (snd (Apply f owner (snd (Apply f owner w)))))) = []
    \<and> remote (snd (Apply f owner (snd (Apply f owner w)))) = remote (snd (Apply f owner w))
    \<and> (client (objects w0 r) = Inr c
        \<and> do_Get dc c (GetName (objects w0 r)) (remote w0) = (Inr found, s1) \<longrightarrow>
        Apply_body dc owner0 r w0 =
          (None, w0\<lparr>remote := s1, calls := calls w0 @ [GetCall c (GetName (objects w0 r))]\<rparr>))"
proof -
  let ?rs = "arrays w (resources f)"
  let ?K = "set (concat (map (\<lambda>r. keys (objects w r)) ?rs))"
  obtain e1 w1 where a1: "Apply_loop store owner ?rs w = (e1, w1)"
    by (cases "Apply_loop store owner ?rs w")
  then have A1: "Apply f owner w = (e1, w1)"
    using assms(1) by (simp add: Apply_def)
  from Apply_loop_store [OF assms(3) a1] assms(2) obtain cs1 where 1: "e1 = None"
    "calls w1 = calls w @ cs1" "distinct (concat (map created cs1))"
    "set (concat (map created cs1)) = ?K" "dom (remote w1) = ?K"
    by auto
  note fr = Apply_loop_frame [OF a1]
  from fr have ar: "arrays w1 (resources f) = ?rs" by simp
  from fr have ow: "owned owner w w1" by simp
  obtain e2 w2 where a2: "Apply_loop store owner ?rs w1 = (e2, w2)"
    by (cases "Apply_loop store owner ?rs w1")
  then have A2: "Apply f owner w1 = (e2, w2)"
    using assms(1) ar by (simp add: Apply_def)
  have res: "\<forall>r \<in> set ?rs. resolvable (objects w1 r)"
    using assms(3) owned_resolvable [OF ow] by simp
  have K: "(\<lambda>r. keys (objects w1 r)) = (\<lambda>r. keys (objects w r))"
    using owned_keys [OF ow] by auto
  from Apply_loop_store [OF res a2] 1(5) obtain cs2 where 2: "e2 = None"
    "calls w2 = calls w1 @ cs2" "set (concat (map created cs2)) = {}" "remote w2 = remote w1"
    unfolding K by auto
  from 2(3) have c2: "concat (map created cs2) = []" by simp
  have skip: "client (objects w0 r) = Inr c
        \<and> do_Get dc c (GetName (objects w0 r)) (remote w0) = (Inr found, s1) \<longrightarrow>
        Apply_body dc owner0 r w0 =
          (None, w0\<lparr>remote := s1, calls := calls w0 @ [GetCall c (GetName (objects w0 r))]\<rparr>)"
    using Apply_body_found [of w0 r c dc found s1 owner0] by blast
  have i1: "issued w w1 = cs1" using 1(2) by (rule issued_append)
  have i2: "issued w1 w2 = cs2" using 2(2) by (rule issued_append)
  from A1 A2 1 2 c2 i1 i2 skip show ?thesis by simp
qed

theorem Apply_idempotent_witness:
  "dynamicClient (engine store) = store
   \<and> remote empty_cluster = Map.empty
   \<and> resolvable deployment \<and> resolvable crd \<and> resolvable service
   \<and> fst (Apply (engine store) install empty_cluster) = None
   \<and> fst (Apply (engine store) install (snd (Apply (engine store) install empty_cluster))) = None
   \<and> concat (map created (issued empty_cluster (snd (Apply (engine store) install empty_cluster)))) =
    [(\<lparr>resource = GVR ''apps'' ''v1'' ''deployments'', namespace = ''kn''\<rparr>, ''controller''),
     (\<lparr>resource = GVR ''apiextensions.k8s.io'' ''v1beta1'' ''customresourcedefinitions'',
        namespace = []\<rparr>, ''routes''),
     (\<lparr>resource = GVR [] ''v1'' ''services'', namespace = ''kn''\<rparr>, ''activator'')]
   \<and> concat (map created
         (issued (snd (Apply (engine store) install empty_cluster))
            (snd (Apply (engine store) install (snd (Apply (engine store) install empty_cluster))))))
       = []
   \<and> remote (snd (Apply (engine store) install (snd (Apply (engine store) install empty_cluster))))
       = remote (snd (Apply (engine store) install empty_cluster))
   \<and> Apply_body store install 0 (snd (Apply (engine store) install empty_cluster)) =
       (None, (snd (Apply (engine store) install empty_cluster))
          \<lparr>remote := remote (snd (Apply (engine store) install empty_cluster)),
           calls := calls (snd (Apply (engine store) install empty_cluster)) @
             [GetCall \<lparr>resource = GVR ''apps'' ''v1'' ''deployments'', namespace = ''kn''\<rparr>
                (GetName (objects (snd (Apply (engine store) install empty_cluster)) 0))]\<rparr>)"
proof -
  let ?w1 = "snd (Apply (engine store) install empty_cluster)"
  let ?cd = "\<lparr>resource = GVR ''apps'' ''v1'' ''deployments'', namespace = ''kn''\<rparr>"
  have h1: "dynamicClient (engine store) = store"
    by simp
  have h2: "remote empty_cluster = Map.empty"
    by (simp add: empty_cluster_def manifest_world_def)
  have h3: "\<forall>r \<in> set (arrays empty_cluster (resources (engine store))).
      resolvable (objects empty_cluster r)"
    by simp
  have g: "do_Get store ?cd (GetName (objects ?w1 0)) (remote ?w1)
      = (Inr (deployment\<lparr>GetOwnerReferences := [install]\<rparr>), remote ?w1)"
    using idempotent_example(1) store_Get_snd by (simp add: prod_eq_iff)
  note t = Apply_idempotent [OF h1 h2 h3, of install ?w1 0 ?cd store
      "deployment\<lparr>GetOwnerReferences := [install]\<rparr>" "remote ?w1" install]
  have r: "resolvable deployment" "resolvable crd" "resolvable service"
    by simp_all
  from t g idempotent_example(2,3) h1 h2 r show ?thesis by blast
qed

text \<open>
  C1 as stated fails on a manifest with a resource whose apiVersion does not parse: from
  the empty store, the first \<open>Apply\<close> creates the Deployment and returns the error of
  the second resource, and the second \<open>Apply\<close> finds the Deployment, creates nothing and
  returns the same error.
\<close>

theorem Apply_twice_on_unresolvable_manifest:
  "remote broken_cluster = Map.empty
   \<and> dynamicClient (engine store) = store
   \<and> map (objects broken_cluster) (arrays broken_cluster (resources (engine store)))
       = [deployment, malformed]
   \<and> ParseGroupVersion (GetAPIVersion malformed) = Inl (GroupVersionError ''a/b/c'')
   \<and> fst (Apply (engine store) install broken_cluster) = Some (GroupVersionError ''a/b/c'')
   \<and> fst (Apply (engine store) install (snd (Apply (engine store) install broken_cluster)))
       = Some (GroupVersionError ''a/b/c'')
   \<and> issued broken_cluster (snd (Apply (engine store) install broken_cluster)) =
       [GetCall \<lparr>resource = GVR ''apps'' ''v1'' ''deployments'', namespace = ''kn''\<rparr>
          ''controller'',
        CreateCall \<lparr>resource = GVR ''apps'' ''v1'' ''deployments'', namespace = ''kn''\<rparr>
          (deployment\<lparr>GetOwnerReferences := [install]\<rparr>)]
   \<and> issued (snd (Apply (engine store) install broken_cluster))
         (snd (Apply (engine store) install (snd (Apply (engine store) install broken_cluster)))) =
       [GetCall \<lparr>resource = GVR ''apps'' ''v1'' ''deployments'', namespace = ''kn''\<rparr>
          ''controller'']"
proof -
  have p: "ParseGroupVersion (GetAPIVersion malformed) = Inl (GroupVersionError ''a/b/c'')"
    by (simp add: malformed_def ParseGroupVersion_def)
  show ?thesis
    using p by (simp add: engine_defs)
qed

section \<open>Parsing a manifest\<close>

lemma decode_eq:
  "decode dec bufs =
     (List.map_filter (\<lambda>buf. case dec buf of Inl err \<Rightarrow> None | Inr spec \<Rightarrow> Some spec) bufs,
      List.map_filter
        (\<lambda>buf. case dec buf of
                  Inl err \<Rightarrow> if err \<noteq> EOF
                             then Some (LogError err ''Unable to decode YAML; ignoring'')
                             else None
                | Inr spec \<Rightarrow> None) bufs)"
  by (induction bufs) (auto simp: List.map_filter_simps split: sum.splits prod.splits)

lemma Decode_empty: "YAMLToJSONDecoder_Decode unmarshal [] = Inl EOF"
  by (simp add: YAMLToJSONDecoder_Decode_def)

text \<open>
  C7, as the code has it. When the file can be opened, parsing does not fail: it yields
  the documents that decode successfully, in their file order, none dropped and none
  reordered; a document whose decoding fails is skipped, and a line is logged for it
  unless the failure is \<open>io.EOF\<close>, which is what an empty document gives: that document
  is skipped without a warning.
\<close>

theorem parse_skips_failed_documents:
  assumes "fs path = Some chunks"
  shows "parse fs dec path =
     Returns
       (List.map_filter (\<lambda>buf. case dec buf of Inl err \<Rightarrow> None | Inr spec \<Rightarrow> Some spec) chunks,
        List.map_filter
          (\<lambda>buf. case dec buf of
                    Inl err \<Rightarrow> if err \<noteq> EOF
                               then Some (LogError err ''Unable to decode YAML; ignoring'')
                               else None
                  | Inr spec \<Rightarrow> None) chunks)"
  using assms by (simp add: parse_def read_def decode_eq)

theorem parse_skips_failed_documents_witness:
  "example_files ''m.yaml'' = Some [''kind: Deployment'', [], ''{'', ''kind: Service'']
   \<and> parse example_files (YAMLToJSONDecoder_Decode example_unmarshal) ''m.yaml'' =
     Returns
       (List.map_filter
          (\<lambda>buf. case YAMLToJSONDecoder_Decode example_unmarshal buf of
                    Inl err \<Rightarrow> None | Inr spec \<Rightarrow> Some spec)
          [''kind: Deployment'', [], ''{'', ''kind: Service''],
        List.map_filter
          (\<lambda>buf. case YAMLToJSONDecoder_Decode example_unmarshal buf of
                    Inl err \<Rightarrow> if err \<noteq> EOF
                               then Some (LogError err ''Unable to decode YAML; ignoring'')
                               else None
                  | Inr spec \<Rightarrow> None)
          [''kind: Deployment'', [], ''{'', ''kind: Service''])
   \<and> List.map_filter
          (\<lambda>buf. case YAMLToJSONDecoder_Decode example_unmarshal buf of
                    Inl err \<Rightarrow> None | Inr spec \<Rightarrow> Some spec)
          [''kind: Deployment'', [], ''{'', ''kind: Service''] = [deployment, service]"
proof -
  have h: "example_files ''m.yaml'' = Some [''kind: Deployment'', [], ''{'', ''kind: Service'']"
    by (simp add: example_files_def)
  have e: "List.map_filter
          (\<lambda>buf. case YAMLToJSONDecoder_Decode example_unmarshal buf of
                    Inl err \<Rightarrow> None | Inr spec \<Rightarrow> Some spec)
          [''kind: Deployment'', [], ''{'', ''kind: Service''] = [deployment, service]"
    by (simp add: List.map_filter_simps YAMLToJSONDecoder_Decode_def example_unmarshal_def)
  from parse_skips_failed_documents [of example_files "''m.yaml''"
      "[''kind: Deployment'', [], ''{'', ''kind: Service'']"
      "YAMLToJSONDecoder_Decode example_unmarshal"] h e
  show ?thesis by blast
qed

text \<open>
  C7 as stated fails on a file with an empty document: of the four documents of the
  example, two are skipped, the empty one and the malformed one, and only the malformed
  one is logged.
\<close>

theorem empty_document_skipped_silently:
  "parse example_files (YAMLToJSONDecoder_Decode example_unmarshal) ''m.yaml'' =
     Returns ([deployment, service],
              [LogError (YAMLSyntaxError ''cannot unmarshal'') ''Unable to decode YAML; ignoring''])
   \<and> YAMLToJSONDecoder_Decode example_unmarshal [] = Inl EOF
   \<and> YAMLToJSONDecoder_Decode example_unmarshal ''{'' = Inl (YAMLSyntaxError ''cannot unmarshal'')"
  by (simp add: parse_def read_def example_files_def YAMLToJSONDecoder_Decode_def
      example_unmarshal_def)

section \<open>The identifiers of the resources\<close>

lemma owned_GroupVersionKind:
  "owned owner w w' \<Longrightarrow> GroupVersionKind (objects w' r) = GroupVersionKind (objects w r)"
  by (simp add: GroupVersionKind_def owned_fields split: sum.splits)

lemma ResourceNames_Apply: "ResourceNames f (snd (Apply f owner w)) = ResourceNames f w"
  by (simp add: ResourceNames_def Apply_frame(1) owned_GroupVersionKind [OF Apply_frame(4)]
      owned_fields(4) [OF Apply_frame(4)])

lemma identifier_form:
  "ParseGroupVersion (GetAPIVersion x) = Inr (GV g v) \<Longrightarrow>
   String (GroupVersionKind x) = g @ ''/'' @ v @ '', Kind='' @ GetKind x"
  by (simp add: GroupVersionKind_def)

text \<open>
  C9, as the code has it. \<open>Apply\<close> returns an error value and nothing else; the
  identifiers come from \<open>ResourceNames\<close>, which gives one identifier for every stored
  resource, in file order, applied or not, the same before and after \<open>Apply\<close>; the
  identifier of a resource whose apiVersion parses into group \<open>g\<close> and version \<open>v\<close> is
  \<open>name (g/v, Kind=kind)\<close>. When \<open>Apply\<close> returns no error, the endpoint of every stored
  resource resolves and the existence check of every stored resource was issued, so
  every resource that \<open>ResourceNames\<close> lists was processed without fatal error.
\<close>

theorem ResourceNames_lists_the_manifest:
  "ResourceNames f (snd (Apply f owner w)) = ResourceNames f w
   \<and> length (ResourceNames f w) = length (arrays w (resources f))
   \<and> (\<forall>i g v. i < length (arrays w (resources f))
         \<and> ParseGroupVersion (GetAPIVersion (objects w (arrays w (resources f) ! i))) = Inr (GV g v)
        \<longrightarrow> ResourceNames f w ! i =
              GetName (objects w (arrays w (resources f) ! i)) @ '' ('' @ g @ ''/'' @ v
                @ '', Kind='' @ GetKind (objects w (arrays w (resources f) ! i)) @ '')'')
   \<and> (fst (Apply f owner w) = None \<longrightarrow>
        (\<forall>r \<in> set (arrays w (resources f)). resolvable (objects w r))
        \<and> (\<exists>bs. length bs = length (arrays w (resources f))
              \<and> issued w (snd (Apply f owner w)) =
                  concat (map2 (\<lambda>r b. requests owner (objects w r) b) (arrays w (resources f)) bs)))"
proof -
  have 1: "ResourceNames f (snd (Apply f owner w)) = ResourceNames f w"
    by (rule ResourceNames_Apply)
  have 2: "length (ResourceNames f w) = length (arrays w (resources f))"
    by (simp add: ResourceNames_def)
  have 3: "\<forall>i g v. i < length (arrays w (resources f))
         \<and> ParseGroupVersion (GetAPIVersion (objects w (arrays w (resources f) ! i))) = Inr (GV g v)
        \<longrightarrow> ResourceNames f w ! i =
              GetName (objects w (arrays w (resources f) ! i)) @ '' ('' @ g @ ''/'' @ v
                @ '', Kind='' @ GetKind (objects w (arrays w (resources f) ! i)) @ '')''"
    by (auto simp: ResourceNames_def identifier_form)
  have 4: "(\<forall>r \<in> set (arrays w (resources f)). resolvable (objects w r))
        \<and> (\<exists>bs. length bs = length (arrays w (resources f))
              \<and> issued w (snd (Apply f owner w)) =
                  concat (map2 (\<lambda>r b. requests owner (objects w r) b) (arrays w (resources f)) bs))"
    if n: "fst (Apply f owner w) = None"
  proof -
    from Apply_None_resolvable [OF n] Apply_issued [of w f owner] n
    show ?thesis by blast
  qed
  from 1 2 3 4 show ?thesis by blast
qed

theorem ResourceNames_lists_the_manifest_witness:
  "fst (Apply (engine store) install empty_cluster) = None
   \<and> (2::nat) < length (arrays empty_cluster (resources (engine store)))
   \<and> ParseGroupVersion (GetAPIVersion (objects empty_cluster
        (arrays empty_cluster (resources (engine store)) ! 2))) = Inr (GV [] ''v1'')
   \<and> ResourceNames (engine store) empty_cluster ! 2 =
       GetName (objects empty_cluster (arrays empty_cluster (resources (engine store)) ! 2))
         @ '' ('' @ [] @ ''/'' @ ''v1'' @ '', Kind=''
         @ GetKind (objects empty_cluster (arrays empty_cluster (resources (engine store)) ! 2))
         @ '')''
   \<and> ResourceNames (engine store) (snd (Apply (engine store) install empty_cluster))
       = ResourceNames (engine store) empty_cluster
   \<and> ResourceNames (engine store) empty_cluster =
     [''controller (apps/v1, Kind=Deployment)'',
      ''routes (apiextensions.k8s.io/v1beta1, Kind=CustomResourceDefinition)'',
      ''activator (/v1, Kind=Service)'']
   \<and> resolvable deployment \<and> resolvable crd \<and> resolvable service"
proof -
  have a: "fst (Apply (engine store) install empty_cluster) = None"
    by (rule Apply_store_example)
  have l: "(2::nat) < length (arrays empty_cluster (resources (engine store)))"
    by simp
  have p: "ParseGroupVersion (GetAPIVersion (objects empty_cluster
        (arrays empty_cluster (resources (engine store)) ! 2))) = Inr (GV [] ''v1'')"
    by (simp add: service_def ParseGroupVersion_def)
  have r: "resolvable deployment" "resolvable crd" "resolvable service"
    by simp_all
  from ResourceNames_lists_the_manifest [of "engine store" install empty_cluster] a l p
    names_example r
  show ?thesis by blast
qed

text \<open>
  C9 as stated fails when a create is refused: \<open>Apply\<close> returns the error alone, although
  the first resource was processed without error, and \<open>ResourceNames\<close> lists all three
  resources, although the third was never attempted.
\<close>

theorem Apply_returns_only_an_error:
  "fst (Apply (engine (refusing ''routes'')) install empty_cluster) = Some (OtherError ''refused'')
   \<and> fst (Apply_body (refusing ''routes'') install 0 empty_cluster) = None
   \<and> issued empty_cluster (snd (Apply (engine (refusing ''routes'')) install empty_cluster)) =
     [GetCall \<lparr>resource = GVR ''apps'' ''v1'' ''deployments'', namespace = ''kn''\<rparr> ''controller'',
      CreateCall \<lparr>resource = GVR ''apps'' ''v1'' ''deployments'', namespace = ''kn''\<rparr>
        (deployment\<lparr>GetOwnerReferences := [install]\<rparr>),
      GetCall \<lparr>resource = GVR ''apiextensions.k8s.io'' ''v1beta1'' ''customresourcedefinitions'',
        namespace = []\<rparr> ''routes'',
      CreateCall \<lparr>resource = GVR ''apiextensions.k8s.io'' ''v1beta1'' ''customresourcedefinitions'',
        namespace = []\<rparr> crd]
   \<and> ResourceNames (engine (refusing ''routes''))
        (snd (Apply (engine (refusing ''routes'')) install empty_cluster)) =
     [''controller (apps/v1, Kind=Deployment)'',
      ''routes (apiextensions.k8s.io/v1beta1, Kind=CustomResourceDefinition)'',
      ''activator (/v1, Kind=Service)'']"
  by (simp add: engine_defs)

section \<open>The owner reference in the stored resources\<close>

lemma with_owner_refs:
  "GetOwnerReferences (with_owner owner x) =
     (if isClusterScoped (GetKind x) then GetOwnerReferences x else [owner])"
  by (simp add: with_owner_def)

lemma owned_refs:
  assumes "owned owner w w'"
  shows "GetOwnerReferences (objects w' r) = GetOwnerReferences (objects w r)
         \<or> GetOwnerReferences (objects w' r) = [owner]"
    and "isClusterScoped (GetKind (objects w r)) \<Longrightarrow>
         GetOwnerReferences (objects w' r) = GetOwnerReferences (objects w r)"
  using assms unfolding owned_def by (metis with_owner_refs)+

lemma run_refs:
  "(GetOwnerReferences (objects (run f ops w) r) = GetOwnerReferences (objects w r)
     \<or> (\<exists>owner \<in> set (owners ops). GetOwnerReferences (objects (run f ops w) r) = [owner]))
   \<and> (isClusterScoped (GetKind (objects w r)) \<longrightarrow>
        GetOwnerReferences (objects (run f ops w) r) = GetOwnerReferences (objects w r))"
proof (induction ops arbitrary: w)
  case Nil
  show ?case by simp
next
  case (Cons x ops)
  show ?case
  proof (cases x)
    case (ApplyOp owner)
    let ?w1 = "snd (Apply f owner w)"
    note ow = Apply_frame(4) [of owner w f]
    note k = owned_fields(2) [OF ow, of r]
    note o = owned_refs [OF ow, of r]
    from Cons.IH [of ?w1] k o ApplyOp show ?thesis by auto
  next
    case DeleteOp
    from Cons.IH [of "snd (Delete f w)"] DeleteOp show ?thesis
      by (simp add: Delete_frame)
  qed
qed

lemma Apply_body_not_found_objects:
  assumes "client (objects w r) = Inr c"
    and "do_Get dc c (GetName (objects w r)) (remote w) = (Inl e0, s1)"
    and "IsNotFound e0"
  shows "objects (snd (Apply_body dc owner r w)) = (objects w)(r := with_owner owner (objects w r))"
proof -
  obtain res s2 where cr: "do_Create dc c (with_owner owner (objects w r)) s1 = (res, s2)"
    by (cases "do_Create dc c (with_owner owner (objects w r)) s1")
  show ?thesis
  proof (cases res)
    case (Inl err)
    with cr Apply_body_create_fails [OF assms, of owner err s2] show ?thesis by simp
  next
    case (Inr made)
    with cr Apply_body_created [OF assms, of owner made s2] show ?thesis by simp
  qed
qed

text \<open>
  C8, as the code has it. The engine has no field for the owner, and after any sequence
  of \<open>Apply\<close> and \<open>Delete\<close> calls on an engine whose slice is allocated, the slice holds
  the same elements in the same order, and the apiVersion, kind, namespace, name and
  remaining payload of every object are those it had before the sequence. The owner
  references of a stored resource are written: \<open>SetOwnerReferences\<close> on the loop copy
  writes into the map that the copy shares with the stored resource. After the
  sequence the owner references of an object are those it had, or the one owner of one
  of the \<open>Apply\<close> calls, and those of an object of a cluster-scoped kind are those it
  had; after one \<open>Apply\<close> every object is as it was or as \<open>Apply\<close> sends it; an iteration
  whose existence check answers not-found leaves the object as \<open>Apply\<close> sends it, whatever
  the create answers; and \<open>Delete\<close> changes no object.
\<close>

theorem stored_resources_frame:
  assumes "resources f < next_array w"
  shows "arrays (run f ops w) (resources f) = arrays w (resources f)
    \<and> (\<forall>r. GetAPIVersion (objects (run f ops w) r) = GetAPIVersion (objects w r)
         \<and> GetKind (objects (run f ops w) r) = GetKind (objects w r)
         \<and> GetNamespace (objects (run f ops w) r) = GetNamespace (objects w r)
         \<and> GetName (objects (run f ops w) r) = GetName (objects w r)
         \<and> payload (objects (run f ops w) r) = payload (objects w r))
    \<and> (\<forall>r. (GetOwnerReferences (objects (run f ops w) r) = GetOwnerReferences (objects w r)
              \<or> (\<exists>owner \<in> set (owners ops).
                    GetOwnerReferences (objects (run f ops w) r) = [owner]))
           \<and> (isClusterScoped (GetKind (objects w r)) \<longrightarrow>
                GetOwnerReferences (objects (run f ops w) r) = GetOwnerReferences (objects w r)))
    \<and> (\<forall>r. objects (snd (Apply f owner w)) r = objects w r
           \<or> objects (snd (Apply f owner w)) r = with_owner owner (objects w r))
    \<and> (client (objects w r0) = Inr c
        \<and> do_Get (dynamicClient f) c (GetName (objects w r0)) (remote w) = (Inl e0, s1)
        \<and> IsNotFound e0 \<longrightarrow>
        objects (snd (Apply_body (dynamicClient f) owner r0 w))
          = (objects w)(r0 := with_owner owner (objects w r0)))
    \<and> objects (snd (Delete f w)) = objects w"
proof -
  have 1: "arrays (run f ops w) (resources f) = arrays w (resources f)
    \<and> (\<forall>r. GetAPIVersion (objects (run f ops w) r) = GetAPIVersion (objects w r)
         \<and> GetKind (objects (run f ops w) r) = GetKind (objects w r)
         \<and> GetNamespace (objects (run f ops w) r) = GetNamespace (objects w r)
         \<and> GetName (objects (run f ops w) r) = GetName (objects w r)
         \<and> payload (objects (run f ops w) r) = payload (objects w r))"
    using run_frame [OF assms, of ops] assms by blast
  have 2: "\<forall>r. (GetOwnerReferences (objects (run f ops w) r) = GetOwnerReferences (objects w r)
              \<or> (\<exists>owner \<in> set (owners ops).
                    GetOwnerReferences (objects (run f ops w) r) = [owner]))
           \<and> (isClusterScoped (GetKind (objects w r)) \<longrightarrow>
                GetOwnerReferences (objects (run f ops w) r) = GetOwnerReferences (objects w r))"
    using run_refs [of f ops w] by blast
  have 3: "\<forall>r. objects (snd (Apply f owner w)) r = objects w r
           \<or> objects (snd (Apply f owner w)) r = with_owner owner (objects w r)"
    using Apply_frame(4) [of owner w f] by (simp add: owned_def)
  have 4: "client (objects w r0) = Inr c
        \<and> do_Get (dynamicClient f) c (GetName (objects w r0)) (remote w) = (Inl e0, s1)
        \<and> IsNotFound e0 \<longrightarrow>
        objects (snd (Apply_body (dynamicClient f) owner r0 w))
          = (objects w)(r0 := with_owner owner (objects w r0))"
    using Apply_body_not_found_objects [of w r0 c "dynamicClient f" e0 s1 owner] by blast
  have 5: "objects (snd (Delete f w)) = objects w"
    by (rule Delete_frame(1))
  from 1 2 3 4 5 show ?thesis by blast
qed

theorem stored_resources_frame_witness:
  "resources (engine store) < next_array empty_cluster
   \<and> client (objects empty_cluster 0)
       = Inr \<lparr>resource = GVR ''apps'' ''v1'' ''deployments'', namespace = ''kn''\<rparr>
   \<and> do_Get (dynamicClient (engine store))
        \<lparr>resource = GVR ''apps'' ''v1'' ''deployments'', namespace = ''kn''\<rparr>
        (GetName (objects empty_cluster 0)) (remote empty_cluster)
       = (Inl (NotFound ''controller''), remote empty_cluster)
   \<and> IsNotFound (NotFound ''controller'')
   \<and> objects (snd (Apply_body (dynamicClient (engine store)) install 0 empty_cluster))
       = (objects empty_cluster)(0 := with_owner install (objects empty_cluster 0))
   \<and> arrays (run (engine store) [ApplyOp install, DeleteOp, ApplyOp install] empty_cluster)
        (resources (engine store)) = arrays empty_cluster (resources (engine store))
   \<and> GetName (objects (run (engine store) [ApplyOp install, DeleteOp, ApplyOp install]
        empty_cluster) 0) = GetName (objects empty_cluster 0)
   \<and> payload (objects (run (engine store) [ApplyOp install, DeleteOp, ApplyOp install]
        empty_cluster) 0) = payload (objects empty_cluster 0)
   \<and> isClusterScoped (GetKind (objects empty_cluster 1))
   \<and> GetOwnerReferences (objects (run (engine store) [ApplyOp install, DeleteOp, ApplyOp install]
        empty_cluster) 1) = GetOwnerReferences (objects empty_cluster 1)
   \<and> objects (snd (Delete (engine store) empty_cluster)) = objects empty_cluster"
proof -
  let ?cd = "\<lparr>resource = GVR ''apps'' ''v1'' ''deployments'', namespace = ''kn''\<rparr>"
  have h: "resources (engine store) < next_array empty_cluster"
    by (rule allocated_example)
  have c: "client (objects empty_cluster 0) = Inr ?cd"
    by simp
  have g: "do_Get (dynamicClient (engine store)) ?cd (GetName (objects empty_cluster 0))
      (remote empty_cluster) = (Inl (NotFound ''controller''), remote empty_cluster)"
    by (simp add: engine_defs)
  have n: "IsNotFound (NotFound ''controller'')"
    by simp
  have k: "isClusterScoped (GetKind (objects empty_cluster 1))"
    by simp
  note t = stored_resources_frame [OF h, of "[ApplyOp install, DeleteOp, ApplyOp install]"
      install 0 ?cd "NotFound ''controller''" "remote empty_cluster"]
  from t c g n have 1: "objects (snd (Apply_body (dynamicClient (engine store)) install 0 empty_cluster))
       = (objects empty_cluster)(0 := with_owner install (objects empty_cluster 0))"
    by blast
  from t k have 2: "GetOwnerReferences (objects (run (engine store)
      [ApplyOp install, DeleteOp, ApplyOp install] empty_cluster) 1)
      = GetOwnerReferences (objects empty_cluster 1)"
    by blast
  from t have 3: "arrays (run (engine store) [ApplyOp install, DeleteOp, ApplyOp install] empty_cluster)
        (resources (engine store)) = arrays empty_cluster (resources (engine store))"
    "GetName (objects (run (engine store) [ApplyOp install, DeleteOp, ApplyOp install]
        empty_cluster) 0) = GetName (objects empty_cluster 0)"
    "payload (objects (run (engine store) [ApplyOp install, DeleteOp, ApplyOp install]
        empty_cluster) 0) = payload (objects empty_cluster 0)"
    "objects (snd (Delete (engine store) empty_cluster)) = objects empty_cluster"
    by blast+
  from h c g n k 1 2 3 show ?thesis by blast
qed

text \<open>
  C8 as stated fails on the owner: the stored Deployment has no owner reference when
  parsed, holds the owner supplied to \<open>Apply\<close> after that call, and still holds it after
  a following \<open>Delete\<close>.
\<close>

theorem owner_reference_kept_in_stored_resource:
  "arrays empty_cluster (resources (engine store)) = [0, 1, 2]
   \<and> objects empty_cluster 0 = deployment
   \<and> GetOwnerReferences deployment = []
   \<and> GetOwnerReferences (objects (snd (Apply (engine store) install empty_cluster)) 0)
       = [install]
   \<and> GetOwnerReferences
        (objects (run (engine store) [ApplyOp install, DeleteOp] empty_cluster) 0) = [install]"
proof -
  have d: "GetOwnerReferences deployment = []"
    by (simp add: deployment_def)
  show ?thesis
    using d by (simp add: engine_defs)
qed

end
